theory Spec2Isabelle
  imports Main "HOL-Library.AList" "HOL-Library.Sublist"
begin

section \<open>JavaScript values\<close>

text \<open>
  The values that flow through the cache and the loaders. Numbers are restricted to the
  integers (no NaN, no fractions); an object is the list of its own enumerable
  string-keyed properties, each name once, in the order they were created.
\<close>

datatype jsval =
    JUndefined
  | JNull
  | JBool bool
  | JNum int
  | JStr string
  | JArr "jsval list"
  | JObj "(string \<times> jsval) list"

text \<open>JavaScript truthiness, as tested by \<^verbatim>\<open>if (x)\<close>, \<^verbatim>\<open>x && y\<close> and \<^verbatim>\<open>x || y\<close>.\<close>

fun truthy :: "jsval \<Rightarrow> bool" where
  "truthy JUndefined = False"
| "truthy JNull = False"
| "truthy (JBool b) = b"
| "truthy (JNum n) = (n \<noteq> 0)"
| "truthy (JStr s) = (s \<noteq> [])"
| "truthy (JArr xs) = True"
| "truthy (JObj fs) = True"

text \<open>Thrown values are error objects; only their kind and message are observed.\<close>

datatype js_error = Error string | TypeError string | ReferenceError string

fun message :: "js_error \<Rightarrow> string" where
  "message (Error m) = m"
| "message (TypeError m) = m"
| "message (ReferenceError m) = m"

section \<open>CacheManager\<close>

text \<open>
  One entry of the cache: \<^verbatim>\<open>{ data, timestamp, ttl }\<close>. The cache itself is a
  JavaScript \<^verbatim>\<open>Map\<close>: an association list in insertion order, where writing an existing key
  replaces its value in place and writing a new key appends it.
\<close>

record cache_entry =
  data :: jsval
  timestamp :: int
  ttl :: int

record cache_manager =
  cache :: "(string \<times> cache_entry) list"
  defaultTTL :: int
  maxSize :: nat

text \<open>The constructor: an empty map, five minutes, one hundred entries.\<close>

definition new_CacheManager :: cache_manager where
  "new_CacheManager = \<lparr> cache = [], defaultTTL = 5 * 60 * 1000, maxSize = 100 \<rparr>"

text \<open>The expiry test used by \<^verbatim>\<open>get\<close>, \<^verbatim>\<open>cleanup\<close> and \<^verbatim>\<open>getStats\<close>:
  \<^verbatim>\<open>(now - value.timestamp) > value.ttl\<close>.\<close>

definition isExpired :: "int \<Rightarrow> cache_entry \<Rightarrow> bool" where
  "isExpired now e = (now - timestamp e > ttl e)"

text \<open>\<^verbatim>\<open>cleanup()\<close> deletes every expired entry and nothing else.\<close>

definition cm_cleanup :: "cache_manager \<Rightarrow> int \<Rightarrow> cache_manager" where
  "cm_cleanup cm now = cm \<lparr> cache := filter (\<lambda>(k, e). \<not> isExpired now e) (cache cm) \<rparr>"

text \<open>
  \<^verbatim>\<open>set(key, data, ttl = this.defaultTTL)\<close>. The time-to-live argument is optional
  (\<open>None\<close> is \<^verbatim>\<open>undefined\<close>). A synchronous method call reads the clock once: \<open>now\<close>
  stands for \<^verbatim>\<open>Date.now()\<close> throughout the call.
\<close>

definition cm_set :: "cache_manager \<Rightarrow> int \<Rightarrow> string \<Rightarrow> jsval \<Rightarrow> int option \<Rightarrow> cache_manager" where
  "cm_set cm now key d ttl_arg =
     (let cm1 = (if length (cache cm) \<ge> maxSize cm then cm_cleanup cm now else cm);
          entry = \<lparr> data = d, timestamp = now,
                    ttl = (case ttl_arg of None \<Rightarrow> defaultTTL cm | Some t \<Rightarrow> t) \<rparr>
      in cm1 \<lparr> cache := AList.update key entry (cache cm1) \<rparr>)"

text \<open>
  \<^verbatim>\<open>get(key)\<close> returns the data, or \<^verbatim>\<open>null\<close> for a missing or an expired entry, and
  deletes the expired entry it met.
\<close>

definition cm_get :: "cache_manager \<Rightarrow> int \<Rightarrow> string \<Rightarrow> jsval \<times> cache_manager" where
  "cm_get cm now key =
     (case map_of (cache cm) key of
        None \<Rightarrow> (JNull, cm)
      | Some cached \<Rightarrow>
          if isExpired now cached
          then (JNull, cm \<lparr> cache := AList.delete key (cache cm) \<rparr>)
          else (data cached, cm))"

text \<open>\<^verbatim>\<open>key.includes(pattern)\<close>: the pattern occurs as a contiguous substring.\<close>

fun str_includes :: "string \<Rightarrow> string \<Rightarrow> bool" where
  "str_includes [] p = (p = [])"
| "str_includes (c # cs) p = (prefix p (c # cs) \<or> str_includes cs p)"

definition cm_invalidate :: "cache_manager \<Rightarrow> string \<Rightarrow> cache_manager" where
  "cm_invalidate cm pattern = cm \<lparr> cache := filter (\<lambda>(k, e). \<not> str_includes k pattern) (cache cm) \<rparr>"

definition cm_clear :: "cache_manager \<Rightarrow> cache_manager" where
  "cm_clear cm = cm \<lparr> cache := [] \<rparr>"

section \<open>The time-to-live contract of the cache\<close>

lemma map_of_cm_set:
  "map_of (cache (cm_set cm now key d ttl_arg)) key =
     Some \<lparr> data = d, timestamp = now,
            ttl = (case ttl_arg of None \<Rightarrow> defaultTTL cm | Some t \<Rightarrow> t) \<rparr>"
  by (simp add: cm_set_def Let_def update_conv' cm_cleanup_def)

lemma cm_get_after_cm_set:
  "cm_get (cm_set cm t k v (Some d)) t' k =
     (if t' - t > d
      then (JNull, (cm_set cm t k v (Some d))
                     \<lparr> cache := AList.delete k (cache (cm_set cm t k v (Some d))) \<rparr>)
      else (v, cm_set cm t k v (Some d)))"
  by (simp add: cm_get_def map_of_cm_set isExpired_def)

text \<open>
  C1, as the code has it. After \<^verbatim>\<open>set(k, v, d)\<close> at time \<open>t\<close>, a read at time \<open>t'\<close>
  returns \<open>v\<close> and leaves the cache alone as long as \<open>t' - t \<le> d\<close>, the instant
  \<open>t' = t + d\<close> included; once \<open>t' - t > d\<close> the read returns \<^verbatim>\<open>null\<close> and the entry
  of \<open>k\<close> is gone from the cache it leaves.
\<close>

theorem C1_ttl_contract:
  "(t' \<le> t + d \<longrightarrow>
      cm_get (cm_set cm t k v (Some d)) t' k = (v, cm_set cm t k v (Some d))) \<and>
   (t + d < t' \<longrightarrow>
      fst (cm_get (cm_set cm t k v (Some d)) t' k) = JNull \<and>
      map_of (cache (snd (cm_get (cm_set cm t k v (Some d)) t' k))) k = None \<and>
      k \<notin> fst ` set (cache (snd (cm_get (cm_set cm t k v (Some d)) t' k))))"
  by (auto simp add: cm_get_after_cm_set delete_conv' delete_notin_dom)

theorem C1_ttl_contract_witness:
  "cm_get (cm_set new_CacheManager 1000 ''services_'' (JNum 7) (Some 500)) 1500 ''services_''
     = (JNum 7, cm_set new_CacheManager 1000 ''services_'' (JNum 7) (Some 500)) \<and>
   fst (cm_get (cm_set new_CacheManager 1000 ''services_'' (JNum 7) (Some 500)) 1501 ''services_'')
     = JNull"
  using C1_ttl_contract [of 1500 1000 500 new_CacheManager "''services_''" "JNum 7"]
        C1_ttl_contract [of 1501 1000 500 new_CacheManager "''services_''" "JNum 7"]
  by simp

text \<open>
  The claim as the specification words it puts the instant \<open>t' = t + d\<close> on the expired
  side. The code does not: at that instant the entry is still served.
\<close>

theorem C1_boundary_counterexample:
  "fst (cm_get (cm_set new_CacheManager 1000 ''k'' (JStr ''v'') (Some 500)) 1500 ''k'')
     \<noteq> JNull"
  by (simp add: cm_get_def cm_set_def new_CacheManager_def isExpired_def)

section \<open>Number and value printing\<close>

text \<open>
  Decimal printing of integers, as template literals and \<^verbatim>\<open>JSON.stringify\<close> do it for
  the integers that JavaScript prints without an exponent (those below \<open>10\<^sup>2\<^sup>1\<close> in
  magnitude).
\<close>

fun decimal_digit :: "nat \<Rightarrow> char" where
  "decimal_digit d = ''0123456789'' ! d"

text \<open>The digits of \<open>n\<close>, most significant first, put in front of \<open>rest\<close>.\<close>

fun nat_decimal :: "nat \<Rightarrow> string \<Rightarrow> string" where
  "nat_decimal n rest =
     (if n < 10 then decimal_digit n # rest
      else nat_decimal (n div 10) (decimal_digit (n mod 10) # rest))"

declare nat_decimal.simps [simp del]

definition number_toString :: "int \<Rightarrow> string" where
  "number_toString i =
     (if 0 \<le> i then nat_decimal (nat i) [] else CHR ''-'' # nat_decimal (nat (- i)) [])"

text \<open>
  \<^verbatim>\<open>String(v)\<close>, the conversion a template literal applies. Inside an array,
  \<^verbatim>\<open>null\<close> and \<^verbatim>\<open>undefined\<close> print as the empty string.
\<close>

fun join :: "string \<Rightarrow> string list \<Rightarrow> string" where
  "join sep [] = []"
| "join sep [x] = x"
| "join sep (x # y # ys) = x @ sep @ join sep (y # ys)"

fun js_toString :: "jsval \<Rightarrow> string" where
  "js_toString JUndefined = ''undefined''"
| "js_toString JNull = ''null''"
| "js_toString (JBool b) = (if b then ''true'' else ''false'')"
| "js_toString (JNum n) = number_toString n"
| "js_toString (JStr s) = s"
| "js_toString (JArr xs) =
     join '','' (map (\<lambda>x. if x = JNull \<or> x = JUndefined then [] else js_toString x) xs)"
| "js_toString (JObj fs) = ''[object Object]''"

text \<open>
  Reading a property \<^verbatim>\<open>v.p\<close>, for the property names the code reads (\<^verbatim>\<open>error\<close>,
  \<^verbatim>\<open>message\<close>, \<^verbatim>\<open>data\<close>): a \<^verbatim>\<open>TypeError\<close> on \<^verbatim>\<open>null\<close> and \<^verbatim>\<open>undefined\<close>,
  the field of an object, \<^verbatim>\<open>undefined\<close> on everything else.
\<close>

fun js_prop :: "jsval \<Rightarrow> string \<Rightarrow> js_error + jsval" where
  "js_prop JUndefined p = Inl (TypeError (''Cannot read properties of undefined (reading '' @ p @ '')''))"
| "js_prop JNull p = Inl (TypeError (''Cannot read properties of null (reading '' @ p @ '')''))"
| "js_prop (JObj fs) p = Inr (case map_of fs p of None \<Rightarrow> JUndefined | Some v \<Rightarrow> v)"
| "js_prop v p = Inr JUndefined"

section \<open>PerformanceOptimizer: retry with timeout and backoff\<close>

text \<open>
  What one invocation of the operation comes to, as \<^verbatim>\<open>await this.withTimeout(operation(), timeout)\<close>
  sees it: the promise fulfils, it rejects (or the call throws), or the timer of
  \<^verbatim>\<open>withTimeout\<close> fires first. An operation is the sequence of these outcomes, indexed by
  the number of invocations made before. Log output and the metrics counters are
  write-only side channels and are left out. Messages are written in ASCII.
\<close>

datatype attempt = Fulfilled jsval | Rejected js_error | TimedOut

type_synonym operation = "nat \<Rightarrow> attempt"

definition withTimeout :: "attempt \<Rightarrow> int \<Rightarrow> js_error + jsval" where
  "withTimeout p timeout =
     (case p of
        Fulfilled v \<Rightarrow> Inr v
      | Rejected e \<Rightarrow> Inl e
      | TimedOut \<Rightarrow> Inl (Error (''Operacao excedeu timeout de '' @ number_toString timeout @ ''ms'')))"

text \<open>\<^verbatim>\<open>this.retryConfig\<close> and \<^verbatim>\<open>this.timeoutConfig.default\<close> of the constructor.\<close>

record retry_config =
  maxRetries :: int
  baseDelay :: int
  maxDelay :: int
  backoffFactor :: int
  timeoutDefault :: int

definition new_retryConfig :: retry_config where
  "new_retryConfig =
     \<lparr> maxRetries = 3, baseDelay = 1000, maxDelay = 10000, backoffFactor = 2,
       timeoutDefault = 10000 \<rparr>"

text \<open>The \<^verbatim>\<open>options\<close> argument; \<open>None\<close> is a field left \<^verbatim>\<open>undefined\<close>.\<close>

record retry_options =
  opt_maxRetries :: "int option"
  opt_baseDelay :: "int option"
  opt_context :: "string option"
  opt_timeout :: "int option"

definition no_options :: retry_options where
  "no_options = \<lparr> opt_maxRetries = None, opt_baseDelay = None, opt_context = None,
                  opt_timeout = None \<rparr>"

text \<open>\<^verbatim>\<open>x || d\<close> on an optional number: zero is falsy and takes the default too.\<close>

definition or_default :: "int option \<Rightarrow> int \<Rightarrow> int" where
  "or_default x d = (case x of None \<Rightarrow> d | Some n \<Rightarrow> if n = 0 then d else n)"

definition or_default_str :: "string option \<Rightarrow> string \<Rightarrow> string" where
  "or_default_str x d = (case x of None \<Rightarrow> d | Some s \<Rightarrow> if s = [] then d else s)"

text \<open>The local \<^verbatim>\<open>config\<close> object of \<^verbatim>\<open>withRetry\<close>.\<close>

record retry_resolved =
  cfg_maxRetries :: int
  cfg_baseDelay :: int
  cfg_context :: string
  cfg_timeout :: int

definition resolve_config :: "retry_config \<Rightarrow> retry_options \<Rightarrow> retry_resolved" where
  "resolve_config rc options =
     \<lparr> cfg_maxRetries = or_default (opt_maxRetries options) (maxRetries rc),
       cfg_baseDelay = or_default (opt_baseDelay options) (baseDelay rc),
       cfg_context = or_default_str (opt_context options) ''operacao'',
       cfg_timeout = or_default (opt_timeout options) (timeoutDefault rc) \<rparr>"

text \<open>The delay before the retry that follows attempt \<open>a\<close>.\<close>

definition backoff_delay :: "retry_config \<Rightarrow> retry_resolved \<Rightarrow> int \<Rightarrow> int" where
  "backoff_delay rc cfg a = min (cfg_baseDelay cfg * backoffFactor rc ^ nat (a - 1)) (maxDelay rc)"

text \<open>
  What a call of \<^verbatim>\<open>withRetry\<close> comes to: the value it returns or the error it throws, how
  often it invoked the operation, and the delays it slept, in order.
\<close>

record retry_run =
  outcome :: "js_error + jsval"
  invocations :: nat
  slept :: "int list"

text \<open>
  The \<^verbatim>\<open>for\<close> loop of \<^verbatim>\<open>withRetry\<close> from attempt \<open>a\<close> on, and the code after it. With no
  attempt made, \<^verbatim>\<open>lastError\<close> is \<^verbatim>\<open>undefined\<close> and reading its message throws.
\<close>

function withRetry_loop ::
  "retry_config \<Rightarrow> retry_resolved \<Rightarrow> operation \<Rightarrow> int \<Rightarrow> js_error option \<Rightarrow> nat \<Rightarrow> int list
     \<Rightarrow> retry_run" where
  "withRetry_loop rc cfg operation a lastError calls delays =
     (if a \<le> cfg_maxRetries cfg + 1
      then (case withTimeout (operation calls) (cfg_timeout cfg) of
              Inr result \<Rightarrow> \<lparr> outcome = Inr result, invocations = Suc calls, slept = delays \<rparr>
            | Inl error \<Rightarrow>
                if a \<le> cfg_maxRetries cfg
                then withRetry_loop rc cfg operation (a + 1) (Some error) (Suc calls)
                       (delays @ [backoff_delay rc cfg a])
                else withRetry_loop rc cfg operation (a + 1) (Some error) (Suc calls) delays)
      else (case lastError of
              None \<Rightarrow> \<lparr> outcome = Inl (TypeError ''Cannot read properties of undefined (reading message)''),
                        invocations = calls, slept = delays \<rparr>
            | Some e \<Rightarrow> \<lparr> outcome = Inl e, invocations = calls, slept = delays \<rparr>))"
  by pat_completeness auto
termination
  by (relation "measure (\<lambda>(rc, cfg, operation, a, lastError, calls, delays).
                  nat (cfg_maxRetries cfg + 2 - a))") auto

declare withRetry_loop.simps [simp del]

definition withRetry :: "retry_config \<Rightarrow> operation \<Rightarrow> retry_options \<Rightarrow> retry_run" where
  "withRetry rc operation options =
     withRetry_loop rc (resolve_config rc options) operation 1 None 0 []"

section \<open>SupabaseClient: retry with backoff\<close>

text \<open>
  The client's own retry loop. It has no timer, so an attempt is the settled outcome of
  \<^verbatim>\<open>await operation()\<close>: a value, or a thrown error. \<^verbatim>\<open>init()\<close> always completes (a
  failed load falls back to a mock client).
\<close>

record supabase_client =
  retryCount :: int
  retryDelay :: int

definition new_SupabaseClient :: supabase_client where
  "new_SupabaseClient = \<lparr> retryCount = 3, retryDelay = 1000 \<rparr>"

type_synonym sb_operation = "nat \<Rightarrow> js_error + jsval"

text \<open>The body of the \<^verbatim>\<open>try\<close> block: the attempt, then the test of \<^verbatim>\<open>result.error\<close>.\<close>

definition sb_attempt :: "js_error + jsval \<Rightarrow> js_error + jsval" where
  "sb_attempt settled =
     (case settled of
        Inl e \<Rightarrow> Inl e
      | Inr result \<Rightarrow>
          (case js_prop result ''error'' of
             Inl e \<Rightarrow> Inl e
           | Inr err \<Rightarrow>
               if truthy err
               then (case js_prop err ''message'' of
                       Inl e \<Rightarrow> Inl e
                     | Inr m \<Rightarrow> Inl (Error (''Supabase error: '' @ js_toString m)))
               else Inr result))"

function sb_withRetry_loop ::
  "supabase_client \<Rightarrow> sb_operation \<Rightarrow> string \<Rightarrow> int \<Rightarrow> js_error option \<Rightarrow> nat \<Rightarrow> int list
     \<Rightarrow> retry_run" where
  "sb_withRetry_loop c operation context a lastError calls delays =
     (if a \<le> retryCount c
      then (case sb_attempt (operation calls) of
              Inr result \<Rightarrow> \<lparr> outcome = Inr result, invocations = Suc calls, slept = delays \<rparr>
            | Inl error \<Rightarrow>
                if a < retryCount c
                then sb_withRetry_loop c operation context (a + 1) (Some error) (Suc calls)
                       (delays @ [retryDelay c * 2 ^ nat (a - 1)])
                else sb_withRetry_loop c operation context (a + 1) (Some error) (Suc calls) delays)
      else (case lastError of
              None \<Rightarrow> \<lparr> outcome = Inl (TypeError ''Cannot read properties of undefined (reading message)''),
                        invocations = calls, slept = delays \<rparr>
            | Some e \<Rightarrow>
                \<lparr> outcome = Inl (Error (''Falha apos '' @ number_toString (retryCount c)
                                         @ '' tentativas em '' @ context @ '': '' @ message e)),
                  invocations = calls, slept = delays \<rparr>))"
  by pat_completeness auto
termination
  by (relation "measure (\<lambda>(c, operation, context, a, lastError, calls, delays).
                  nat (retryCount c + 1 - a))") auto

declare sb_withRetry_loop.simps [simp del]

definition sb_withRetry :: "supabase_client \<Rightarrow> sb_operation \<Rightarrow> string \<Rightarrow> retry_run" where
  "sb_withRetry c operation context = sb_withRetry_loop c operation context 1 None 0 []"

section \<open>The retry bound\<close>

text \<open>An attempt fails when the operation rejects or the timer wins the race.\<close>

fun fulfils :: "attempt \<Rightarrow> bool" where
  "fulfils (Fulfilled v) = True"
| "fulfils (Rejected e) = False"
| "fulfils TimedOut = False"

lemma withTimeout_fails: "\<not> fulfils p \<Longrightarrow> \<exists>e. withTimeout p t = Inl e"
  by (cases p) (simp_all add: withTimeout_def)

lemma upto_split_first: "a \<le> m \<Longrightarrow> [a..m] = a # [a + 1..m]"
  by (simp add: upto_rec1)

lemma withRetry_loop_past_end:
  "cfg_maxRetries cfg + 1 < a \<Longrightarrow>
     withRetry_loop rc cfg operation a (Some e) calls delays =
       \<lparr> outcome = Inl e, invocations = calls, slept = delays \<rparr>"
  by (subst withRetry_loop.simps) simp

lemma withRetry_loop_all_fail:
  "\<forall>i. \<not> fulfils (operation i) \<Longrightarrow> 1 \<le> a \<Longrightarrow> a \<le> cfg_maxRetries cfg + 1 \<Longrightarrow>
     withRetry_loop rc cfg operation a le calls delays =
       \<lparr> outcome = withTimeout (operation (calls + nat (cfg_maxRetries cfg + 1 - a))) (cfg_timeout cfg),
         invocations = calls + nat (cfg_maxRetries cfg + 2 - a),
         slept = delays @ map (backoff_delay rc cfg) [a..cfg_maxRetries cfg] \<rparr>"
proof (induction rc cfg operation a le calls delays rule: withRetry_loop.induct)
  case (1 rc cfg operation a lastError calls delays)
  let ?m = "cfg_maxRetries cfg"
  obtain e where e: "withTimeout (operation calls) (cfg_timeout cfg) = Inl e"
    using withTimeout_fails "1.prems"(1) by blast
  show ?case
  proof (cases "a \<le> ?m")
    case True
    have step: "withRetry_loop rc cfg operation a lastError calls delays =
                withRetry_loop rc cfg operation (a + 1) (Some e) (Suc calls)
                  (delays @ [backoff_delay rc cfg a])"
      using True e by (subst withRetry_loop.simps) simp
    have ih: "withRetry_loop rc cfg operation (a + 1) (Some e) (Suc calls)
                  (delays @ [backoff_delay rc cfg a]) =
        \<lparr> outcome = withTimeout (operation (Suc calls + nat (?m + 1 - (a + 1)))) (cfg_timeout cfg),
          invocations = Suc calls + nat (?m + 2 - (a + 1)),
          slept = (delays @ [backoff_delay rc cfg a]) @ map (backoff_delay rc cfg) [a + 1..?m] \<rparr>"
      using "1.IH"(1) [OF _ e True] "1.prems" True by simp
    have idx: "Suc calls + nat (?m + 1 - (a + 1)) = calls + nat (?m + 1 - a)"
              "Suc calls + nat (?m + 2 - (a + 1)) = calls + nat (?m + 2 - a)"
      using True by simp_all
    show ?thesis
      unfolding step ih idx using True by (simp add: upto_split_first)
  next
    case False
    then have a: "a = ?m + 1" using "1.prems" by simp
    have step: "withRetry_loop rc cfg operation a lastError calls delays =
                withRetry_loop rc cfg operation (a + 1) (Some e) (Suc calls) delays"
      using False e "1.prems" by (subst withRetry_loop.simps) simp
    show ?thesis
      unfolding step using a e by (simp add: withRetry_loop_past_end)
  qed
qed

lemma sum_list_upto: "sum_list (map f [i..j]) = (\<Sum>a = i..j. f a)"
  by (simp add: interv_sum_list_conv_sum_set_int)

lemma withRetry_all_fail_run:
  assumes "\<forall>i. \<not> fulfils (operation i)"
      and "0 \<le> cfg_maxRetries (resolve_config rc options)"
  shows "withRetry rc operation options =
       \<lparr> outcome = withTimeout (operation (nat (cfg_maxRetries (resolve_config rc options))))
                     (cfg_timeout (resolve_config rc options)),
         invocations = nat (cfg_maxRetries (resolve_config rc options) + 1),
         slept = map (backoff_delay rc (resolve_config rc options))
                   [1..cfg_maxRetries (resolve_config rc options)] \<rparr>"
  unfolding withRetry_def
  using withRetry_loop_all_fail [OF assms(1), of 1 "resolve_config rc options" rc None 0 "[]"]
    assms(2)
  by simp

section \<open>The embedded error channel\<close>

text \<open>A result carries an embedded error when its \<^verbatim>\<open>error\<close> field is truthy: the test
  \<^verbatim>\<open>if (result.error)\<close>.\<close>

definition carries_error :: "jsval \<Rightarrow> bool" where
  "carries_error r = (case js_prop r ''error'' of Inl e \<Rightarrow> False | Inr err \<Rightarrow> truthy err)"

lemma sb_attempt_Inr: "sb_attempt s = Inr r \<Longrightarrow> s = Inr r \<and> \<not> carries_error r"
  by (auto simp: sb_attempt_def carries_error_def split: sum.splits if_splits)

lemma sb_attempt_carries: "carries_error r \<Longrightarrow> \<exists>e. sb_attempt (Inr r) = Inl e"
  by (auto simp: sb_attempt_def carries_error_def split: sum.splits if_splits)

lemma sb_withRetry_loop_Inr:
  "outcome (sb_withRetry_loop c operation ctx a le calls delays) = Inr r \<Longrightarrow>
     \<exists>i. sb_attempt (operation i) = Inr r"
proof (induction c operation ctx a le calls delays rule: sb_withRetry_loop.induct)
  case (1 c operation ctx a lastError calls delays)
  show ?case
  proof (cases "a \<le> retryCount c")
    case True
    show ?thesis
    proof (cases "sb_attempt (operation calls)")
      case (Inr res)
      with True "1.prems" have "res = r"
        by (subst (asm) sb_withRetry_loop.simps) simp
      with Inr show ?thesis by blast
    next
      case (Inl e)
      show ?thesis
      proof (cases "a < retryCount c")
        case lt: True
        with True Inl "1.prems" have "outcome (sb_withRetry_loop c operation ctx (a + 1) (Some e)
               (Suc calls) (delays @ [retryDelay c * 2 ^ nat (a - 1)])) = Inr r"
          by (subst (asm) sb_withRetry_loop.simps) simp
        then show ?thesis using "1.IH"(1) [OF True Inl lt] by blast
      next
        case ge: False
        with True Inl "1.prems" have "outcome (sb_withRetry_loop c operation ctx (a + 1) (Some e)
               (Suc calls) delays) = Inr r"
          by (subst (asm) sb_withRetry_loop.simps) simp
        then show ?thesis using "1.IH"(2) [OF True Inl ge] by blast
      qed
    qed
  next
    case False
    with "1.prems" show ?thesis
      by (subst (asm) sb_withRetry_loop.simps) (simp split: option.splits)
  qed
qed

lemma sb_withRetry_loop_past_end:
  "retryCount c < a \<Longrightarrow>
     sb_withRetry_loop c operation ctx a (Some e) calls delays =
       \<lparr> outcome = Inl (Error (''Falha apos '' @ number_toString (retryCount c)
                                 @ '' tentativas em '' @ ctx @ '': '' @ message e)),
         invocations = calls, slept = delays \<rparr>"
  by (subst sb_withRetry_loop.simps) simp

lemma sb_withRetry_loop_all_fail:
  "\<forall>i. \<exists>e. sb_attempt (operation i) = Inl e \<Longrightarrow> 1 \<le> a \<Longrightarrow> a \<le> retryCount c \<Longrightarrow>
     sb_withRetry_loop c operation ctx a le calls delays =
       \<lparr> outcome = Inl (Error (''Falha apos '' @ number_toString (retryCount c)
                   @ '' tentativas em '' @ ctx @ '': ''
                   @ message (projl (sb_attempt (operation (calls + nat (retryCount c - a))))))),
         invocations = calls + nat (retryCount c + 1 - a),
         slept = delays @ map (\<lambda>a. retryDelay c * 2 ^ nat (a - 1)) [a..retryCount c - 1] \<rparr>"
proof (induction c operation ctx a le calls delays rule: sb_withRetry_loop.induct)
  case (1 c operation ctx a lastError calls delays)
  let ?r = "retryCount c"
  obtain e where e: "sb_attempt (operation calls) = Inl e"
    using "1.prems"(1) by blast
  have le: "a \<le> ?r" using "1.prems" by simp
  show ?case
  proof (cases "a < ?r")
    case True
    have step: "sb_withRetry_loop c operation ctx a lastError calls delays =
                sb_withRetry_loop c operation ctx (a + 1) (Some e) (Suc calls)
                  (delays @ [retryDelay c * 2 ^ nat (a - 1)])"
      using True e by (subst sb_withRetry_loop.simps) simp
    have ih: "sb_withRetry_loop c operation ctx (a + 1) (Some e) (Suc calls)
                  (delays @ [retryDelay c * 2 ^ nat (a - 1)]) =
        \<lparr> outcome = Inl (Error (''Falha apos '' @ number_toString ?r
                   @ '' tentativas em '' @ ctx @ '': ''
                   @ message (projl (sb_attempt (operation (Suc calls + nat (?r - (a + 1)))))))),
          invocations = Suc calls + nat (?r + 1 - (a + 1)),
          slept = (delays @ [retryDelay c * 2 ^ nat (a - 1)])
                    @ map (\<lambda>a. retryDelay c * 2 ^ nat (a - 1)) [a + 1..?r - 1] \<rparr>"
      using "1.IH"(1) [OF le e True] "1.prems" True by simp
    have idx: "Suc calls + nat (?r - (a + 1)) = calls + nat (?r - a)"
              "Suc calls + nat (?r + 1 - (a + 1)) = calls + nat (?r + 1 - a)"
      using True by simp_all
    have up: "[a..?r - 1] = a # [a + 1..?r - 1]"
      using True by (simp add: upto_rec1)
    show ?thesis
      unfolding step ih idx up by simp
  next
    case False
    then have a: "a = ?r" using le by simp
    have step: "sb_withRetry_loop c operation ctx a lastError calls delays =
                sb_withRetry_loop c operation ctx (a + 1) (Some e) (Suc calls) delays"
      using False e le by (subst sb_withRetry_loop.simps) simp
    show ?thesis
      unfolding step using a e by (simp add: sb_withRetry_loop_past_end)
  qed
qed

text \<open>
  The same bound for \<^verbatim>\<open>SupabaseClient.withRetry\<close>, whose \<^verbatim>\<open>retryCount\<close> counts attempts:
  an operation that always fails is invoked \<open>retryCount\<close> times, the delays
  \<open>retryDelay * 2 ^ (a - 1)\<close> for \<open>a = 1..retryCount - 1\<close> have no cap, and the error thrown
  is a new one whose message ends with the message of the last error.
\<close>

lemma sb_withRetry_all_fail:
  assumes "\<forall>i. \<exists>e. sb_attempt (operation i) = Inl e" and "1 \<le> retryCount c"
  shows "sb_withRetry c operation ctx =
       \<lparr> outcome = Inl (Error (''Falha apos '' @ number_toString (retryCount c)
                   @ '' tentativas em '' @ ctx @ '': ''
                   @ message (projl (sb_attempt (operation (nat (retryCount c - 1))))))),
         invocations = nat (retryCount c),
         slept = map (\<lambda>a. retryDelay c * 2 ^ nat (a - 1)) [1..retryCount c - 1] \<rparr>"
  unfolding sb_withRetry_def
  using sb_withRetry_loop_all_fail [OF assms(1), of 1 c ctx None 0 "[]"] assms(2)
  by simp

lemma withRetry_first_fulfilled:
  assumes "operation 0 = Fulfilled r" and "0 \<le> cfg_maxRetries (resolve_config rc options)"
  shows "withRetry rc operation options = \<lparr> outcome = Inr r, invocations = 1, slept = [] \<rparr>"
  unfolding withRetry_def using assms
  by (subst withRetry_loop.simps) (simp add: withTimeout_def)

text \<open>
  C7, as the code has it. \<^verbatim>\<open>SupabaseClient.withRetry\<close> never returns a result that carries
  an embedded error, and when every attempt returns such a result it makes all its
  \<open>retryCount\<close> attempts and then throws. \<^verbatim>\<open>PerformanceOptimizer.withRetry\<close> does not look
  at the result: whatever the first attempt fulfils with is returned at once.
\<close>

theorem C7_embedded_error:
  "(outcome (sb_withRetry c operation ctx) = Inr r \<longrightarrow> \<not> carries_error r)
   \<and> ((\<forall>i. \<exists>res. operation i = Inr res \<and> carries_error res) \<and> 1 \<le> retryCount c \<longrightarrow>
        invocations (sb_withRetry c operation ctx) = nat (retryCount c)
        \<and> (\<exists>e. outcome (sb_withRetry c operation ctx) = Inl e))
   \<and> (po_operation 0 = Fulfilled r' \<and> 0 \<le> cfg_maxRetries (resolve_config rc options) \<longrightarrow>
        withRetry rc po_operation options = \<lparr> outcome = Inr r', invocations = 1, slept = [] \<rparr>)"
proof (intro conjI impI)
  assume "outcome (sb_withRetry c operation ctx) = Inr r"
  then obtain i where "sb_attempt (operation i) = Inr r"
    unfolding sb_withRetry_def using sb_withRetry_loop_Inr by blast
  then show "\<not> carries_error r" using sb_attempt_Inr by blast
next
  assume a: "(\<forall>i. \<exists>res. operation i = Inr res \<and> carries_error res) \<and> 1 \<le> retryCount c"
  then have "\<forall>i. \<exists>e. sb_attempt (operation i) = Inl e"
    using sb_attempt_carries by metis
  from sb_withRetry_all_fail [OF this, of c ctx] a
  show "invocations (sb_withRetry c operation ctx) = nat (retryCount c)"
    and "\<exists>e. outcome (sb_withRetry c operation ctx) = Inl e" by simp_all
next
  assume "po_operation 0 = Fulfilled r' \<and> 0 \<le> cfg_maxRetries (resolve_config rc options)"
  then show "withRetry rc po_operation options = \<lparr> outcome = Inr r', invocations = 1, slept = [] \<rparr>"
    using withRetry_first_fulfilled by blast
qed

text \<open>A result of the remote service that reports a rejection.\<close>

definition denied :: jsval where
  "denied = JObj [(''data'', JNull), (''error'', JObj [(''message'', JStr ''denied'')])]"

theorem C7_embedded_error_witness:
  "invocations (sb_withRetry new_SupabaseClient (\<lambda>i. Inr denied) ''buscar servicos'') = 3
   \<and> (\<exists>e. outcome (sb_withRetry new_SupabaseClient (\<lambda>i. Inr denied) ''buscar servicos'') = Inl e)
   \<and> withRetry new_retryConfig (\<lambda>i. Fulfilled denied) no_options
        = \<lparr> outcome = Inr denied, invocations = 1, slept = [] \<rparr>"
  using C7_embedded_error [of new_SupabaseClient "\<lambda>i. Inr denied" "''buscar servicos''" denied
           "\<lambda>i. Fulfilled denied" denied new_retryConfig no_options]
  by (simp add: carries_error_def denied_def new_SupabaseClient_def resolve_config_def
        new_retryConfig_def no_options_def or_default_def)

text \<open>
  The claim as the specification words it covers every retry executor. The optimizer's
  returns the result with the embedded error as a success of the first attempt.
\<close>

theorem C7_optimizer_counterexample:
  "carries_error denied
   \<and> outcome (withRetry new_retryConfig (\<lambda>i. Fulfilled denied) no_options) = Inr denied
   \<and> invocations (withRetry new_retryConfig (\<lambda>i. Fulfilled denied) no_options) = 1"
  by (simp add: withRetry_first_fulfilled resolve_config_def new_retryConfig_def no_options_def
        or_default_def carries_error_def denied_def)

section \<open>The retry bound of the two executors\<close>

text \<open>
  C3, as the code has it. The two retry executors count differently.

  \<^verbatim>\<open>PerformanceOptimizer.withRetry\<close>: every field of the resolved configuration is the one
  of the options when that is given and not zero, and the default otherwise
  (\<^verbatim>\<open>options.maxRetries || this.retryConfig.maxRetries\<close>, and likewise \<^verbatim>\<open>baseDelay\<close> and
  \<^verbatim>\<open>timeout\<close>), so that \<^verbatim>\<open>{maxRetries: 0}\<close> asks for the default number of retries. With
  \<open>m\<close> the resolved retry count, not negative, an operation that fails on every attempt
  is invoked exactly \<open>m + 1\<close> times; the call then throws the error of the last attempt
  itself; and the delays it sleeps between the attempts are
  \<open>min (baseDelay * backoffFactor ^ (a - 1)) maxDelay\<close> for \<open>a = 1..m\<close>, with the resolved
  \<open>baseDelay\<close>. Their sum is the time spent in backoff; the time spent awaiting the
  attempts themselves is not part of it.

  \<^verbatim>\<open>SupabaseClient.withRetry\<close>: \<^verbatim>\<open>retryCount\<close> counts attempts. With \<open>1 \<le> retryCount\<close>, an
  operation that fails on every attempt (by throwing, or by returning a result with an
  embedded error) is invoked exactly \<open>retryCount\<close> times, the delays are
  \<open>retryDelay * 2 ^ (a - 1)\<close> for \<open>a = 1..retryCount - 1\<close> without a cap, and the error
  thrown is a new one whose message ends with the message of the last error.
\<close>

theorem C3_retry_bound:
  "((\<forall>i. \<not> fulfils (operation i)) \<and> 0 \<le> cfg_maxRetries (resolve_config rc options) \<longrightarrow>
      invocations (withRetry rc operation options)
        = nat (cfg_maxRetries (resolve_config rc options) + 1)
      \<and> outcome (withRetry rc operation options)
          = withTimeout (operation (nat (cfg_maxRetries (resolve_config rc options))))
              (cfg_timeout (resolve_config rc options))
      \<and> (\<exists>e. outcome (withRetry rc operation options) = Inl e)
      \<and> slept (withRetry rc operation options)
          = map (\<lambda>a. min (cfg_baseDelay (resolve_config rc options) * backoffFactor rc ^ nat (a - 1))
                          (maxDelay rc))
              [1..cfg_maxRetries (resolve_config rc options)]
      \<and> sum_list (slept (withRetry rc operation options))
          = (\<Sum>a = 1..cfg_maxRetries (resolve_config rc options).
                min (cfg_baseDelay (resolve_config rc options) * backoffFactor rc ^ nat (a - 1))
                    (maxDelay rc)))
   \<and> cfg_maxRetries (resolve_config rc options)
       = (case opt_maxRetries options of
            None \<Rightarrow> maxRetries rc
          | Some n \<Rightarrow> if n = 0 then maxRetries rc else n)
   \<and> cfg_baseDelay (resolve_config rc options)
       = (case opt_baseDelay options of
            None \<Rightarrow> baseDelay rc
          | Some n \<Rightarrow> if n = 0 then baseDelay rc else n)
   \<and> cfg_timeout (resolve_config rc options)
       = (case opt_timeout options of
            None \<Rightarrow> timeoutDefault rc
          | Some n \<Rightarrow> if n = 0 then timeoutDefault rc else n)
   \<and> ((\<forall>i. \<exists>e. sb_attempt (sb_op i) = Inl e) \<and> 1 \<le> retryCount c \<longrightarrow>
        invocations (sb_withRetry c sb_op ctx) = nat (retryCount c)
        \<and> slept (sb_withRetry c sb_op ctx)
            = map (\<lambda>a. retryDelay c * 2 ^ nat (a - 1)) [1..retryCount c - 1]
        \<and> outcome (sb_withRetry c sb_op ctx)
            = Inl (Error (''Falha apos '' @ number_toString (retryCount c)
                   @ '' tentativas em '' @ ctx @ '': ''
                   @ message (projl (sb_attempt (sb_op (nat (retryCount c - 1))))))))"
proof (intro conjI impI)
  let ?cfg = "resolve_config rc options"
  assume a: "(\<forall>i. \<not> fulfils (operation i)) \<and> 0 \<le> cfg_maxRetries ?cfg"
  note run = withRetry_all_fail_run [OF a [THEN conjunct1] a [THEN conjunct2]]
  have bd: "backoff_delay rc ?cfg
              = (\<lambda>a. min (cfg_baseDelay ?cfg * backoffFactor rc ^ nat (a - 1)) (maxDelay rc))"
    by (simp add: backoff_delay_def fun_eq_iff)
  show "invocations (withRetry rc operation options) = nat (cfg_maxRetries ?cfg + 1)"
    unfolding run by simp
  show "outcome (withRetry rc operation options)
          = withTimeout (operation (nat (cfg_maxRetries ?cfg))) (cfg_timeout ?cfg)"
    unfolding run by simp
  show "\<exists>e. outcome (withRetry rc operation options) = Inl e"
    unfolding run
    using withTimeout_fails [OF a [THEN conjunct1, rule_format],
            of "nat (cfg_maxRetries ?cfg)" "cfg_timeout ?cfg"]
    by simp
  show "slept (withRetry rc operation options)
          = map (\<lambda>a. min (cfg_baseDelay ?cfg * backoffFactor rc ^ nat (a - 1)) (maxDelay rc))
              [1..cfg_maxRetries ?cfg]"
    unfolding run by (simp add: bd)
  show "sum_list (slept (withRetry rc operation options))
          = (\<Sum>a = 1..cfg_maxRetries ?cfg.
                min (cfg_baseDelay ?cfg * backoffFactor rc ^ nat (a - 1)) (maxDelay rc))"
    unfolding run by (simp add: bd sum_list_upto)
next
  show "cfg_maxRetries (resolve_config rc options)
       = (case opt_maxRetries options of
            None \<Rightarrow> maxRetries rc
          | Some n \<Rightarrow> if n = 0 then maxRetries rc else n)"
    by (simp add: resolve_config_def or_default_def)
next
  show "cfg_baseDelay (resolve_config rc options)
       = (case opt_baseDelay options of
            None \<Rightarrow> baseDelay rc
          | Some n \<Rightarrow> if n = 0 then baseDelay rc else n)"
    by (simp add: resolve_config_def or_default_def)
next
  show "cfg_timeout (resolve_config rc options)
       = (case opt_timeout options of
            None \<Rightarrow> timeoutDefault rc
          | Some n \<Rightarrow> if n = 0 then timeoutDefault rc else n)"
    by (simp add: resolve_config_def or_default_def)
next
  assume b: "(\<forall>i. \<exists>e. sb_attempt (sb_op i) = Inl e) \<and> 1 \<le> retryCount c"
  note run = sb_withRetry_all_fail [OF b [THEN conjunct1] b [THEN conjunct2], of ctx]
  show "invocations (sb_withRetry c sb_op ctx) = nat (retryCount c)"
    unfolding run by simp
  show "slept (sb_withRetry c sb_op ctx)
          = map (\<lambda>a. retryDelay c * 2 ^ nat (a - 1)) [1..retryCount c - 1]"
    unfolding run by simp
  show "outcome (sb_withRetry c sb_op ctx)
          = Inl (Error (''Falha apos '' @ number_toString (retryCount c)
                 @ '' tentativas em '' @ ctx @ '': ''
                 @ message (projl (sb_attempt (sb_op (nat (retryCount c - 1)))))))"
    unfolding run by simp
qed

text \<open>
  A call that asks for two retries from 500 ms with a timeout of 50 ms, on an operation
  that never settles; and the client with its three attempts on a service that is down.
\<close>

definition two_retries :: retry_options where
  "two_retries = \<lparr> opt_maxRetries = Some 2, opt_baseDelay = Some 500, opt_context = None,
                   opt_timeout = Some 50 \<rparr>"

theorem C3_retry_bound_witness:
  "invocations (withRetry new_retryConfig (\<lambda>i. TimedOut) two_retries) = 3
   \<and> outcome (withRetry new_retryConfig (\<lambda>i. TimedOut) two_retries)
       = Inl (Error ''Operacao excedeu timeout de 50ms'')
   \<and> slept (withRetry new_retryConfig (\<lambda>i. TimedOut) two_retries) = [500, 1000]
   \<and> sum_list (slept (withRetry new_retryConfig (\<lambda>i. TimedOut) two_retries)) = 1500
   \<and> invocations (sb_withRetry new_SupabaseClient (\<lambda>i. Inl (Error ''down'')) ''buscar servicos'')
       = 3
   \<and> slept (sb_withRetry new_SupabaseClient (\<lambda>i. Inl (Error ''down'')) ''buscar servicos'')
       = [1000, 2000]
   \<and> outcome (sb_withRetry new_SupabaseClient (\<lambda>i. Inl (Error ''down'')) ''buscar servicos'')
       = Inl (Error ''Falha apos 3 tentativas em buscar servicos: down'')"
proof -
  note T = C3_retry_bound [of "\<lambda>i. TimedOut" new_retryConfig two_retries
             "\<lambda>i. Inl (Error ''down'')" new_SupabaseClient "''buscar servicos''"]
  have cfg: "resolve_config new_retryConfig two_retries
               = \<lparr> cfg_maxRetries = 2, cfg_baseDelay = 500, cfg_context = ''operacao'',
                   cfg_timeout = 50 \<rparr>"
    by (simp add: resolve_config_def new_retryConfig_def two_retries_def or_default_def
          or_default_str_def)
  have h1: "(\<forall>i. \<not> fulfils ((\<lambda>i. TimedOut) i))
            \<and> 0 \<le> cfg_maxRetries (resolve_config new_retryConfig two_retries)"
    by (simp add: cfg)
  have h2: "(\<forall>i. \<exists>e. sb_attempt ((\<lambda>i. Inl (Error ''down'')) i) = Inl e)
            \<and> 1 \<le> retryCount new_SupabaseClient"
    by (simp add: sb_attempt_def new_SupabaseClient_def)
  have rc: "maxDelay new_retryConfig = 10000" "backoffFactor new_retryConfig = 2"
    by (simp_all add: new_retryConfig_def)
  have ten: "number_toString 50 = ''50''" "number_toString 3 = ''3''"
    by (simp_all add: number_toString_def nat_decimal.simps)
  from T [THEN conjunct1, THEN mp, OF h1]
  have po: "invocations (withRetry new_retryConfig (\<lambda>i. TimedOut) two_retries) = 3"
       "outcome (withRetry new_retryConfig (\<lambda>i. TimedOut) two_retries)
          = Inl (Error ''Operacao excedeu timeout de 50ms'')"
       "slept (withRetry new_retryConfig (\<lambda>i. TimedOut) two_retries) = [500, 1000]"
    by (simp_all add: cfg withTimeout_def ten rc upto_rec1)
  from T [THEN conjunct2, THEN conjunct2, THEN conjunct2, THEN conjunct2, THEN mp, OF h2]
  have sb: "invocations (sb_withRetry new_SupabaseClient (\<lambda>i. Inl (Error ''down'')) ''buscar servicos'') = 3"
       "slept (sb_withRetry new_SupabaseClient (\<lambda>i. Inl (Error ''down'')) ''buscar servicos'')
          = [1000, 2000]"
       "outcome (sb_withRetry new_SupabaseClient (\<lambda>i. Inl (Error ''down'')) ''buscar servicos'')
          = Inl (Error ''Falha apos 3 tentativas em buscar servicos: down'')"
    by (simp_all add: new_SupabaseClient_def sb_attempt_def ten upto_rec1)
  show ?thesis
    by (simp add: po sb)
qed

text \<open>
  The claim as the specification words it gives every executor \<open>maxRetries + 1\<close>
  invocations. The client, configured with \<^verbatim>\<open>retryCount = 3\<close>, invokes an operation that
  always fails three times, not four; and the optimizer, asked for \<^verbatim>\<open>{maxRetries: 0}\<close>,
  invokes it four times, not once.
\<close>

theorem C3_retry_count_counterexample:
  "retryCount new_SupabaseClient = 3
   \<and> invocations (sb_withRetry new_SupabaseClient (\<lambda>i. Inl (Error ''down'')) ''buscar servicos'')
       = 3
   \<and> opt_maxRetries (no_options \<lparr> opt_maxRetries := Some 0 \<rparr>) = Some 0
   \<and> invocations (withRetry new_retryConfig (\<lambda>i. Rejected (Error ''down''))
        (no_options \<lparr> opt_maxRetries := Some 0 \<rparr>)) = 4"
proof -
  have sb: "sb_withRetry new_SupabaseClient (\<lambda>i. Inl (Error ''down'')) ''buscar servicos''
          = \<lparr> outcome = Inl (Error (''Falha apos '' @ number_toString (retryCount new_SupabaseClient)
                   @ '' tentativas em '' @ ''buscar servicos'' @ '': ''
                   @ message (projl (sb_attempt (Inl (Error ''down'')))))),
              invocations = nat (retryCount new_SupabaseClient),
              slept = map (\<lambda>a. retryDelay new_SupabaseClient * 2 ^ nat (a - 1))
                        [1..retryCount new_SupabaseClient - 1] \<rparr>"
    by (rule sb_withRetry_all_fail) (simp_all add: sb_attempt_def new_SupabaseClient_def)
  have cfg: "cfg_maxRetries (resolve_config new_retryConfig (no_options \<lparr> opt_maxRetries := Some 0 \<rparr>)) = 3"
    by (simp add: resolve_config_def new_retryConfig_def no_options_def or_default_def)
  have po: "invocations (withRetry new_retryConfig (\<lambda>i. Rejected (Error ''down''))
              (no_options \<lparr> opt_maxRetries := Some 0 \<rparr>)) = 4"
    by (subst withRetry_all_fail_run) (simp_all add: cfg)
  have opt: "opt_maxRetries (no_options \<lparr> opt_maxRetries := Some 0 \<rparr>) = Some 0"
    by simp
  have sb3: "invocations (sb_withRetry new_SupabaseClient (\<lambda>i. Inl (Error ''down''))
               ''buscar servicos'') = 3"
    unfolding sb by (simp add: new_SupabaseClient_def)
  show ?thesis
    using opt sb3 po by (simp add: new_SupabaseClient_def)
qed

section \<open>The capacity of the cache\<close>

text \<open>Writing a list of keys one after the other, all at the same instant.\<close>

definition fill_cache :: "cache_manager \<Rightarrow> int \<Rightarrow> string list \<Rightarrow> cache_manager" where
  "fill_cache cm now keys = fold (\<lambda>k c. cm_set c now k (JStr k) None) keys cm"

definition hundred_and_one_keys :: "string list" where
  "hundred_and_one_keys = map (\<lambda>n. ''item_'' @ replicate n CHR ''x'') [0..<101]"

definition all_fresh :: "cache_manager \<Rightarrow> int \<Rightarrow> bool" where
  "all_fresh cm now = list_all (\<lambda>(k, e). \<not> isExpired now e) (cache cm)"

lemma cm_cleanup_all_fresh: "all_fresh cm now \<Longrightarrow> cm_cleanup cm now = cm"
  by (simp add: all_fresh_def cm_cleanup_def list_all_iff filter_id_conv)

lemma length_update_new:
  "k \<notin> fst ` set al \<Longrightarrow> length (AList.update k v al) = Suc (length al)"
  by (induction al) auto

lemma set_update_subset: "set (AList.update k v al) \<subseteq> insert (k, v) (set al)"
  by (induction al) auto

lemma cm_set_new_key:
  assumes "all_fresh cm now" and "k \<notin> fst ` set (cache cm)" and "0 \<le> defaultTTL cm"
  shows "length (cache (cm_set cm now k v None)) = Suc (length (cache cm))"
    and "all_fresh (cm_set cm now k v None) now"
    and "fst ` set (cache (cm_set cm now k v None)) = insert k (fst ` set (cache cm))"
    and "defaultTTL (cm_set cm now k v None) = defaultTTL cm"
    and "maxSize (cm_set cm now k v None) = maxSize cm"
proof -
  have eq: "cm_set cm now k v None =
      cm \<lparr> cache := AList.update k \<lparr> data = v, timestamp = now, ttl = defaultTTL cm \<rparr> (cache cm) \<rparr>"
    using assms(1) by (simp add: cm_set_def cm_cleanup_all_fresh)
  show "length (cache (cm_set cm now k v None)) = Suc (length (cache cm))"
    using assms(2) by (simp add: eq length_update_new)
  show "all_fresh (cm_set cm now k v None) now"
    using assms(1,3) set_update_subset [of k "\<lparr> data = v, timestamp = now, ttl = defaultTTL cm \<rparr>" "cache cm"]
    by (auto simp: eq all_fresh_def list_all_iff isExpired_def)
  show "fst ` set (cache (cm_set cm now k v None)) = insert k (fst ` set (cache cm))"
    by (simp add: eq dom_update)
  show "defaultTTL (cm_set cm now k v None) = defaultTTL cm" by (simp add: eq)
  show "maxSize (cm_set cm now k v None) = maxSize cm" by (simp add: eq)
qed

lemma fill_cache_grows:
  "all_fresh cm now \<Longrightarrow> 0 \<le> defaultTTL cm \<Longrightarrow> distinct keys \<Longrightarrow>
   set keys \<inter> fst ` set (cache cm) = {} \<Longrightarrow>
     length (cache (fill_cache cm now keys)) = length (cache cm) + length keys
     \<and> maxSize (fill_cache cm now keys) = maxSize cm"
proof (induction keys arbitrary: cm)
  case Nil
  then show ?case by (simp add: fill_cache_def)
next
  case (Cons k keys)
  let ?cm = "cm_set cm now k (JStr k) None"
  have k: "k \<notin> fst ` set (cache cm)" using Cons.prems(4) by auto
  note s = cm_set_new_key [OF Cons.prems(1) k Cons.prems(2), of "JStr k"]
  have "set keys \<inter> fst ` set (cache ?cm) = {}"
    using Cons.prems(3,4) by (auto simp: s(3))
  from Cons.IH [OF s(2) _ _ this] Cons.prems(2,3) s(1,4,5)
  have "length (cache (fill_cache ?cm now keys)) = length (cache ?cm) + length keys
     \<and> maxSize (fill_cache ?cm now keys) = maxSize ?cm" by simp
  then show ?case by (simp add: fill_cache_def s(1,5))
qed

lemma distinct_hundred_and_one_keys: "distinct hundred_and_one_keys"
  by (simp add: hundred_and_one_keys_def distinct_map inj_on_def)

text \<open>
  C4 at a failing run. One hundred and one different keys are written into a new cache
  within their time to live. When the last one arrives the cache holds \<open>maxSize\<close>
  entries, \<^verbatim>\<open>cleanup\<close> finds nothing expired, nothing else is evicted, and the cache ends
  with 101 entries against a \<open>maxSize\<close> of 100.
\<close>

theorem C4_capacity_exceeded:
  "length (cache (fill_cache new_CacheManager 0 hundred_and_one_keys)) = 101
   \<and> maxSize (fill_cache new_CacheManager 0 hundred_and_one_keys) = 100"
  using fill_cache_grows [of new_CacheManager 0 hundred_and_one_keys]
        distinct_hundred_and_one_keys
  by (simp add: all_fresh_def new_CacheManager_def hundred_and_one_keys_def)

section \<open>PerformanceOptimizer: loading in batches\<close>

text \<open>
  The \<^verbatim>\<open>options\<close> of \<^verbatim>\<open>batchLoad\<close>. The batch size is a natural number (a negative or
  fractional size is outside the model); \<^verbatim>\<open>options.batchSize || 5\<close> and
  \<^verbatim>\<open>options.delay || 100\<close> replace a missing or zero value.
\<close>

record batch_options =
  batchSize :: "nat option"
  delay :: "int option"
  bo_timeout :: "int option"

definition eff_batchSize :: "batch_options \<Rightarrow> nat" where
  "eff_batchSize options = (case batchSize options of None \<Rightarrow> 5 | Some n \<Rightarrow> if n = 0 then 5 else n)"

text \<open>\<^verbatim>\<open>batch.indexOf(item)\<close>, for an item of the batch: the first position that holds it.\<close>

fun indexOf :: "'a list \<Rightarrow> 'a \<Rightarrow> nat" where
  "indexOf [] x = 0"
| "indexOf (y # ys) x = (if y = x then 0 else Suc (indexOf ys x))"

text \<open>
  The loader of a batch gives, for each item, the operation that loads it; each item of
  a batch is loaded by a \<^verbatim>\<open>withRetry\<close> of its own.
\<close>

definition batch_item_run ::
  "retry_config \<Rightarrow> ('a \<Rightarrow> operation) \<Rightarrow> batch_options \<Rightarrow> nat \<Rightarrow> 'a list \<Rightarrow> 'a \<Rightarrow> retry_run" where
  "batch_item_run rc loader options i batch item =
     withRetry rc (loader item)
       \<lparr> opt_maxRetries = None, opt_baseDelay = None,
         opt_context = Some (''batch item '' @ nat_decimal (i + indexOf batch item) []),
         opt_timeout = bo_timeout options \<rparr>"

text \<open>\<^verbatim>\<open>Promise.all\<close>: the list of the values when every promise fulfils, a rejection
  (\<open>None\<close>) as soon as one rejects.\<close>

fun promise_all :: "retry_run list \<Rightarrow> jsval list option" where
  "promise_all [] = Some []"
| "promise_all (r # rs) =
     (case outcome r of
        Inl e \<Rightarrow> None
      | Inr v \<Rightarrow> (case promise_all rs of None \<Rightarrow> None | Some vs \<Rightarrow> Some (v # vs)))"

text \<open>
  The \<^verbatim>\<open>for\<close> loop of \<^verbatim>\<open>batchLoad\<close> from index \<open>i\<close> on. It returns the results and the
  pauses slept between batches. Every \<^verbatim>\<open>await\<close> of the loop stands inside the
  \<^verbatim>\<open>try\<close> block, whose \<^verbatim>\<open>catch\<close> only logs: the function has no way to throw.
\<close>

function batchLoad_loop ::
  "retry_config \<Rightarrow> 'a list \<Rightarrow> ('a \<Rightarrow> operation) \<Rightarrow> batch_options \<Rightarrow> nat \<Rightarrow> jsval list \<Rightarrow> int list
     \<Rightarrow> jsval list \<times> int list" where
  "batchLoad_loop rc items loader options i results pauses =
     (if i < length items
      then (let batch = take (eff_batchSize options) (drop i items)
            in case promise_all (map (batch_item_run rc loader options i batch) batch) of
                 Some batchResults \<Rightarrow>
                   batchLoad_loop rc items loader options (i + eff_batchSize options)
                     (results @ batchResults)
                     (if i + eff_batchSize options < length items \<and> or_default (delay options) 100 > 0
                      then pauses @ [or_default (delay options) 100] else pauses)
               | None \<Rightarrow>
                   batchLoad_loop rc items loader options (i + eff_batchSize options) results pauses)
      else (results, pauses))"
  by pat_completeness auto
termination
  by (relation "measure (\<lambda>(rc, items, loader, options, i, results, pauses). length items - i)")
     (auto simp: eff_batchSize_def split: option.splits)

declare batchLoad_loop.simps [simp del]

definition batchLoad ::
  "retry_config \<Rightarrow> 'a list \<Rightarrow> ('a \<Rightarrow> operation) \<Rightarrow> batch_options \<Rightarrow> jsval list \<times> int list" where
  "batchLoad rc items loader options = batchLoad_loop rc items loader options 0 [] []"

section \<open>Partial failure of a batch\<close>

text \<open>Consecutive groups of \<open>n\<close> items, the last one possibly shorter.\<close>

function chunks :: "nat \<Rightarrow> 'a list \<Rightarrow> 'a list list" where
  "chunks n xs = (if n = 0 \<or> xs = [] then [] else take n xs # chunks n (drop n xs))"
  by pat_completeness auto
termination
  by (relation "measure (\<lambda>(n, xs). length xs)") auto

declare chunks.simps [simp del]

text \<open>The load of one item, and what one batch adds to the results: the values of all
  its items when every one of them loads, nothing otherwise.\<close>

definition item_load :: "retry_config \<Rightarrow> ('a \<Rightarrow> operation) \<Rightarrow> batch_options \<Rightarrow> 'a \<Rightarrow> retry_run" where
  "item_load rc loader options item =
     withRetry rc (loader item)
       \<lparr> opt_maxRetries = None, opt_baseDelay = None, opt_context = None,
         opt_timeout = bo_timeout options \<rparr>"

definition batch_outcome ::
  "retry_config \<Rightarrow> ('a \<Rightarrow> operation) \<Rightarrow> batch_options \<Rightarrow> 'a list \<Rightarrow> jsval list" where
  "batch_outcome rc loader options batch =
     (case promise_all (map (item_load rc loader options) batch) of None \<Rightarrow> [] | Some vs \<Rightarrow> vs)"

lemma withRetry_loop_context:
  "cfg_maxRetries cfg' = cfg_maxRetries cfg \<Longrightarrow> cfg_baseDelay cfg' = cfg_baseDelay cfg \<Longrightarrow>
   cfg_timeout cfg' = cfg_timeout cfg \<Longrightarrow>
     withRetry_loop rc cfg' operation a le calls delays =
     withRetry_loop rc cfg operation a le calls delays"
proof (induction rc cfg operation a le calls delays rule: withRetry_loop.induct)
  case (1 rc cfg operation a lastError calls delays)
  have bd: "backoff_delay rc cfg' a = backoff_delay rc cfg a"
    using "1.prems" by (simp add: backoff_delay_def)
  show ?case
    apply (subst withRetry_loop.simps [of rc cfg'])
    apply (subst withRetry_loop.simps [of rc cfg])
    using "1.IH" "1.prems" bd
    by (auto split: sum.splits)
qed

lemma batch_item_run_item:
  "batch_item_run rc loader options i batch item = item_load rc loader options item"
  unfolding batch_item_run_def item_load_def withRetry_def
  by (rule withRetry_loop_context) (simp_all add: resolve_config_def)

lemma batch_item_run_eq: "batch_item_run rc loader options i batch = item_load rc loader options"
  by (rule ext) (rule batch_item_run_item)

lemma batchLoad_loop_chunks:
  "fst (batchLoad_loop rc items loader options i results pauses) =
     results @ concat (map (batch_outcome rc loader options)
                         (chunks (eff_batchSize options) (drop i items)))"
proof (induction rc items loader options i results pauses rule: batchLoad_loop.induct)
  case (1 rc items loader options i results pauses)
  let ?bs = "eff_batchSize options"
  have bs: "?bs \<noteq> 0" by (simp add: eff_batchSize_def split: option.splits)
  show ?case
  proof (cases "i < length items")
    case False
    then show ?thesis
      by (subst batchLoad_loop.simps, subst chunks.simps) simp
  next
    case True
    let ?batch = "take ?bs (drop i items)"
    have ch: "chunks ?bs (drop i items) = ?batch # chunks ?bs (drop (i + ?bs) items)"
      using True bs by (subst chunks.simps) (simp add: add.commute)
    have pa: "promise_all (map (batch_item_run rc loader options i ?batch) ?batch)
                = promise_all (map (item_load rc loader options) ?batch)"
      by (simp add: batch_item_run_eq)
    show ?thesis
    proof (cases "promise_all (map (item_load rc loader options) ?batch)")
      case None
      have "fst (batchLoad_loop rc items loader options i results pauses) =
            fst (batchLoad_loop rc items loader options (i + ?bs) results pauses)"
        using True None pa by (subst batchLoad_loop.simps) (simp add: Let_def)
      also have "\<dots> = results @ concat (map (batch_outcome rc loader options)
                         (chunks ?bs (drop (i + ?bs) items)))"
        using "1.IH"(1) [OF True refl] None pa by simp
      finally show ?thesis using None by (simp add: ch batch_outcome_def [of _ _ _ ?batch])
    next
      case (Some vs)
      let ?pauses = "if i + ?bs < length items \<and> or_default (delay options) 100 > 0
                      then pauses @ [or_default (delay options) 100] else pauses"
      have "fst (batchLoad_loop rc items loader options i results pauses) =
            fst (batchLoad_loop rc items loader options (i + ?bs) (results @ vs) ?pauses)"
        using True Some pa by (subst batchLoad_loop.simps) (simp add: Let_def)
      also have "\<dots> = (results @ vs) @ concat (map (batch_outcome rc loader options)
                         (chunks ?bs (drop (i + ?bs) items)))"
        using "1.IH"(2) [OF True refl, of vs] Some pa by simp
      finally show ?thesis using Some by (simp add: ch batch_outcome_def [of _ _ _ ?batch])
    qed
  qed
qed

lemma batchLoad_chunks:
  "fst (batchLoad rc items loader options) =
     concat (map (batch_outcome rc loader options) (chunks (eff_batchSize options) items))"
  by (simp add: batchLoad_def batchLoad_loop_chunks)


lemma withRetry_all_fail_outcome:
  assumes "\<forall>i. \<not> fulfils (operation i)" and "0 \<le> cfg_maxRetries (resolve_config rc options)"
  shows "\<exists>e. outcome (withRetry rc operation options) = Inl e"
proof -
  let ?cfg = "resolve_config rc options"
  have "outcome (withRetry rc operation options)
          = withTimeout (operation (nat (cfg_maxRetries ?cfg))) (cfg_timeout ?cfg)"
    unfolding withRetry_def
    using withRetry_loop_all_fail [OF assms(1), of 1 ?cfg rc None 0 "[]"] assms(2) by simp
  then show ?thesis
    using withTimeout_fails [OF assms(1) [rule_format]] by simp
qed

lemma item_load_fulfilled:
  "loader x 0 = Fulfilled v \<Longrightarrow> 0 \<le> maxRetries rc \<Longrightarrow> outcome (item_load rc loader options x) = Inr v"
  unfolding item_load_def
  by (subst withRetry_first_fulfilled [where r = v])
     (simp_all add: resolve_config_def or_default_def)

lemma item_load_fails:
  "\<forall>i. \<not> fulfils (loader x i) \<Longrightarrow> 0 \<le> maxRetries rc \<Longrightarrow>
     \<exists>e. outcome (item_load rc loader options x) = Inl e"
  unfolding item_load_def
  by (rule withRetry_all_fail_outcome) (simp_all add: resolve_config_def or_default_def)

lemma batchLoad_scenario:
  assumes "\<forall>i. \<not> fulfils (loader c i)" and "0 \<le> maxRetries rc"
      and "loader a 0 = Fulfilled ra" and "loader b 0 = Fulfilled rb"
      and "loader d 0 = Fulfilled rd" and "loader e 0 = Fulfilled re"
  shows "fst (batchLoad rc [a, b, c, d, e] loader
              \<lparr> batchSize = Some 2, delay = dl, bo_timeout = tm \<rparr>) = [ra, rb, re]"
proof -
  let ?o = "\<lparr> batchSize = Some 2, delay = dl, bo_timeout = tm \<rparr>"
  have bs: "eff_batchSize ?o = 2" by (simp add: eff_batchSize_def)
  have ch: "chunks 2 [a, b, c, d, e] = [[a, b], [c, d], [e]]"
    by (simp add: chunks.simps)
  obtain err where c: "outcome (item_load rc loader ?o c) = Inl err"
    using item_load_fails [where loader = loader and x = c, OF assms(1,2)] by blast
  have oa: "outcome (item_load rc loader ?o a) = Inr ra"
    by (rule item_load_fulfilled [where loader = loader and x = a, OF assms(3,2)])
  have ob: "outcome (item_load rc loader ?o b) = Inr rb"
    by (rule item_load_fulfilled [where loader = loader and x = b, OF assms(4,2)])
  have oe: "outcome (item_load rc loader ?o e) = Inr re"
    by (rule item_load_fulfilled [where loader = loader and x = e, OF assms(6,2)])
  have ab: "batch_outcome rc loader ?o [a, b] = [ra, rb]"
    by (simp add: batch_outcome_def oa ob)
  have cd: "batch_outcome rc loader ?o [c, d] = []"
    by (simp add: batch_outcome_def c)
  have e: "batch_outcome rc loader ?o [e] = [re]"
    by (simp add: batch_outcome_def oe)
  have "fst (batchLoad rc [a, b, c, d, e] loader ?o)
          = concat (map (batch_outcome rc loader ?o) [[a, b], [c, d], [e]])"
    by (simp only: batchLoad_chunks bs ch)
  then show ?thesis by (simp add: ab cd e)
qed

text \<open>The scenario of the specification: the loader of the letters fails on \<open>c\<close> alone.\<close>

definition letters_loader :: "string \<Rightarrow> operation" where
  "letters_loader item =
     (\<lambda>i. if item = ''c'' then Rejected (Error ''no c'') else Fulfilled (JStr (''result_'' @ item)))"

lemma letters_scenario:
  "fst (batchLoad new_retryConfig [''a'', ''b'', ''c'', ''d'', ''e''] letters_loader
          \<lparr> batchSize = Some 2, delay = None, bo_timeout = None \<rparr>)
     = [JStr ''result_a'', JStr ''result_b'', JStr ''result_e'']"
  by (rule batchLoad_scenario [where loader = letters_loader and rd = "JStr ''result_d''"])
     (simp_all add: letters_loader_def new_retryConfig_def)

text \<open>
  C5, as the code has it. The results are the concatenation, batch after batch, of what
  each batch adds: all its values, or nothing when one of its items fails. So with
  batches of two, items \<open>a, b, c, d, e\<close> and an item \<open>c\<close> that always fails while the
  others load at once, the batch of \<open>c\<close> and \<open>d\<close> is dropped as a whole and the result is
  that of \<open>a\<close>, \<open>b\<close> and \<open>e\<close>.
\<close>

theorem C5_batch_partial_failure:
  "fst (batchLoad rc items loader options) =
     concat (map (batch_outcome rc loader options) (chunks (eff_batchSize options) items))
   \<and> ((\<forall>i. \<not> fulfils (loader c i)) \<and> 0 \<le> maxRetries rc
        \<and> loader a 0 = Fulfilled ra \<and> loader b 0 = Fulfilled rb
        \<and> loader d 0 = Fulfilled rd \<and> loader e 0 = Fulfilled re \<longrightarrow>
       fst (batchLoad rc [a, b, c, d, e] loader
              \<lparr> batchSize = Some 2, delay = dl, bo_timeout = tm \<rparr>) = [ra, rb, re])"
proof (intro conjI impI)
  show "fst (batchLoad rc items loader options) =
     concat (map (batch_outcome rc loader options) (chunks (eff_batchSize options) items))"
    by (rule batchLoad_chunks)
next
  assume "(\<forall>i. \<not> fulfils (loader c i)) \<and> 0 \<le> maxRetries rc
        \<and> loader a 0 = Fulfilled ra \<and> loader b 0 = Fulfilled rb
        \<and> loader d 0 = Fulfilled rd \<and> loader e 0 = Fulfilled re"
  then show "fst (batchLoad rc [a, b, c, d, e] loader
              \<lparr> batchSize = Some 2, delay = dl, bo_timeout = tm \<rparr>) = [ra, rb, re]"
    by (elim conjE) (rule batchLoad_scenario)
qed

theorem C5_batch_partial_failure_witness:
  "fst (batchLoad new_retryConfig [''a'', ''b'', ''c'', ''d'', ''e''] letters_loader
          \<lparr> batchSize = Some 2, delay = None, bo_timeout = None \<rparr>)
     = [JStr ''result_a'', JStr ''result_b'', JStr ''result_e'']"
proof -
  have "(\<forall>i. \<not> fulfils (letters_loader ''c'' i)) \<and> 0 \<le> maxRetries new_retryConfig
        \<and> letters_loader ''a'' 0 = Fulfilled (JStr ''result_a'')
        \<and> letters_loader ''b'' 0 = Fulfilled (JStr ''result_b'')
        \<and> letters_loader ''d'' 0 = Fulfilled (JStr ''result_d'')
        \<and> letters_loader ''e'' 0 = Fulfilled (JStr ''result_e'')"
    by (simp add: letters_loader_def new_retryConfig_def)
  with C5_batch_partial_failure [of new_retryConfig "[]" letters_loader
           "\<lparr> batchSize = Some 2, delay = None, bo_timeout = None \<rparr>" "''c''"
           "''a''" "JStr ''result_a''" "''b''" "JStr ''result_b''"
           "''d''" "JStr ''result_d''" "''e''" "JStr ''result_e''" None None]
  show ?thesis by (elim conjE) (erule impE, (intro conjI; assumption), assumption)
qed

text \<open>
  The claim as the specification words it keeps the sibling \<open>d\<close> of the failing item:
  four results. The code returns three.
\<close>

theorem C5_sibling_dropped_counterexample:
  "fst (batchLoad new_retryConfig [''a'', ''b'', ''c'', ''d'', ''e''] letters_loader
          \<lparr> batchSize = Some 2, delay = None, bo_timeout = None \<rparr>)
     \<noteq> [JStr ''result_a'', JStr ''result_b'', JStr ''result_d'', JStr ''result_e'']"
  by (simp add: letters_scenario)

section \<open>PerformanceOptimizer: the caching strategies\<close>

text \<open>
  What a call of a strategy comes to once everything it started has settled: the value
  it returns or the error it throws, the cache it leaves, and how often it invoked the
  loader. \<^verbatim>\<open>window.cacheManager\<close> is the global instance of the cache module and is taken
  to be present. A strategy reads the clock when it is called (\<open>now\<close>) and again after
  the load it awaited has settled (\<open>later\<close>); no other task touches the cache in
  between.
\<close>

record strategy_result =
  returned :: "js_error + jsval"
  cache_after :: cache_manager
  loader_calls :: nat

definition context_options :: "string \<Rightarrow> retry_options" where
  "context_options c = \<lparr> opt_maxRetries = None, opt_baseDelay = None, opt_context = Some c,
                          opt_timeout = None \<rparr>"

text \<open>\<^verbatim>\<open>if (window.cacheManager && result) cacheManager.set(key, result, ttl)\<close>.\<close>

definition store_if_truthy :: "cache_manager \<Rightarrow> int \<Rightarrow> string \<Rightarrow> jsval \<Rightarrow> int option \<Rightarrow> cache_manager" where
  "store_if_truthy cm later key result ttl_arg =
     (if truthy result then cm_set cm later key result ttl_arg else cm)"

definition cacheFirst ::
  "retry_config \<Rightarrow> cache_manager \<Rightarrow> int \<Rightarrow> int \<Rightarrow> string \<Rightarrow> operation \<Rightarrow> int option
     \<Rightarrow> strategy_result" where
  "cacheFirst rc cm now later key loader ttl_arg =
     (let (cached, cm1) = cm_get cm now key
      in if truthy cached
         then \<lparr> returned = Inr cached, cache_after = cm1, loader_calls = 0 \<rparr>
         else (let run = withRetry rc loader (context_options (''cache-first: '' @ key))
               in case outcome run of
                    Inl error \<Rightarrow>
                      \<lparr> returned = Inl error, cache_after = cm1, loader_calls = invocations run \<rparr>
                  | Inr result \<Rightarrow>
                      \<lparr> returned = Inr result,
                        cache_after = store_if_truthy cm1 later key result ttl_arg,
                        loader_calls = invocations run \<rparr>))"

definition network_first_options :: "string \<Rightarrow> retry_options" where
  "network_first_options key =
     \<lparr> opt_maxRetries = Some 1, opt_baseDelay = None,
       opt_context = Some (''network-first: '' @ key), opt_timeout = None \<rparr>"

definition networkFirst ::
  "retry_config \<Rightarrow> cache_manager \<Rightarrow> int \<Rightarrow> string \<Rightarrow> operation \<Rightarrow> int option
     \<Rightarrow> strategy_result" where
  "networkFirst rc cm later key loader ttl_arg =
     (let run = withRetry rc loader (network_first_options key)
      in case outcome run of
           Inr result \<Rightarrow>
             \<lparr> returned = Inr result,
               cache_after = store_if_truthy cm later key result ttl_arg,
               loader_calls = invocations run \<rparr>
         | Inl error \<Rightarrow>
             (let (cached, cm1) = cm_get cm later key
              in if truthy cached
                 then \<lparr> returned = Inr cached, cache_after = cm1, loader_calls = invocations run \<rparr>
                 else \<lparr> returned = Inl error, cache_after = cm1, loader_calls = invocations run \<rparr>))"

text \<open>
  With a cached value, \<^verbatim>\<open>staleWhileRevalidate\<close> returns it at once and refreshes in the
  background; \<open>cache_after\<close> is then the cache once that refresh has settled, and a failed
  refresh is only logged.
\<close>

definition staleWhileRevalidate ::
  "retry_config \<Rightarrow> cache_manager \<Rightarrow> int \<Rightarrow> int \<Rightarrow> string \<Rightarrow> operation \<Rightarrow> int option
     \<Rightarrow> strategy_result" where
  "staleWhileRevalidate rc cm now later key loader ttl_arg =
     (let (cached, cm1) = cm_get cm now key
      in if truthy cached
         then (let run = withRetry rc loader (context_options (''revalidate: '' @ key))
               in \<lparr> returned = Inr cached,
                    cache_after = (case outcome run of
                                     Inl error \<Rightarrow> cm1
                                   | Inr result \<Rightarrow> store_if_truthy cm1 later key result ttl_arg),
                    loader_calls = invocations run \<rparr>)
         else (let run = withRetry rc loader (context_options (''initial load: '' @ key))
               in case outcome run of
                    Inl error \<Rightarrow>
                      \<lparr> returned = Inl error, cache_after = cm1, loader_calls = invocations run \<rparr>
                  | Inr result \<Rightarrow>
                      \<lparr> returned = Inr result,
                        cache_after = store_if_truthy cm1 later key result ttl_arg,
                        loader_calls = invocations run \<rparr>))"

section \<open>PerformanceOptimizer: lazy loading with a registry of loads in flight\<close>

text \<open>
  The \<^verbatim>\<open>options\<close> of \<^verbatim>\<open>lazyLoad\<close>, and the state it works on: the cache and
  \<^verbatim>\<open>this.activeRequests\<close>, a \<^verbatim>\<open>Map\<close> from cache keys to the promises of the loads in
  flight. A promise of \<^verbatim>\<open>withRetry\<close> is represented by the run it settles with.
\<close>

record lazy_options =
  cacheKey :: "string option"
  lz_context :: "string option"
  lz_timeout :: "int option"
  cacheTTL :: "int option"

record optimizer_state =
  po_cache :: cache_manager
  activeRequests :: "(string \<times> retry_run) list"

text \<open>The key when \<^verbatim>\<open>cacheKey\<close> is truthy: given and not the empty string.\<close>

definition truthy_key :: "lazy_options \<Rightarrow> string option" where
  "truthy_key options = (case cacheKey options of None \<Rightarrow> None | Some k \<Rightarrow> if k = [] then None else Some k)"

definition lazy_retry_options :: "lazy_options \<Rightarrow> retry_options" where
  "lazy_retry_options options =
     \<lparr> opt_maxRetries = None, opt_baseDelay = None,
       opt_context = Some (or_default_str (lz_context options) ''lazy load''),
       opt_timeout = lz_timeout options \<rparr>"

text \<open>
  Where a call of \<^verbatim>\<open>lazyLoad\<close> stands when it first gives up control: it has returned
  the cached value, it awaits the promise found in the registry, or it awaits the load it
  has started itself. Up to there the call runs without interruption.
\<close>

datatype lazy_phase =
    Returned jsval
  | AwaitingActive retry_run
  | AwaitingLoad retry_run

definition lazyLoad_begin ::
  "retry_config \<Rightarrow> optimizer_state \<Rightarrow> int \<Rightarrow> operation \<Rightarrow> lazy_options
     \<Rightarrow> optimizer_state \<times> lazy_phase" where
  "lazyLoad_begin rc st now loader options =
     (case truthy_key options of
        None \<Rightarrow> (st, AwaitingLoad (withRetry rc loader (lazy_retry_options options)))
      | Some k \<Rightarrow>
          (let (cached, cm1) = cm_get (po_cache st) now k;
               st1 = st \<lparr> po_cache := cm1 \<rparr>
           in if truthy cached then (st1, Returned cached)
              else (case map_of (activeRequests st1) k of
                      Some p \<Rightarrow> (st1, AwaitingActive p)
                    | None \<Rightarrow>
                        (let loadPromise = withRetry rc loader (lazy_retry_options options)
                         in (st1 \<lparr> activeRequests := AList.update k loadPromise (activeRequests st1) \<rparr>,
                             AwaitingLoad loadPromise)))))"

text \<open>
  The rest of the call that started the load, run when the load has settled: the
  \<^verbatim>\<open>try\<close> block with the write to the cache, and the \<^verbatim>\<open>finally\<close> block that removes the
  key from the registry.
\<close>

definition lazyLoad_finish ::
  "optimizer_state \<Rightarrow> int \<Rightarrow> lazy_options \<Rightarrow> retry_run \<Rightarrow> optimizer_state \<times> (js_error + jsval)" where
  "lazyLoad_finish st later options loadPromise =
     (case truthy_key options of
        None \<Rightarrow> (st, outcome loadPromise)
      | Some k \<Rightarrow>
          (let st1 = (case outcome loadPromise of
                        Inl error \<Rightarrow> st
                      | Inr result \<Rightarrow>
                          st \<lparr> po_cache := store_if_truthy (po_cache st) later k result (cacheTTL options) \<rparr>)
           in (st1 \<lparr> activeRequests := AList.delete k (activeRequests st1) \<rparr>, outcome loadPromise)))"

text \<open>A call of \<^verbatim>\<open>lazyLoad\<close> that runs alone, from its start to its end.\<close>

definition lazyLoad ::
  "retry_config \<Rightarrow> optimizer_state \<Rightarrow> int \<Rightarrow> int \<Rightarrow> operation \<Rightarrow> lazy_options
     \<Rightarrow> optimizer_state \<times> (js_error + jsval) \<times> nat" where
  "lazyLoad rc st now later loader options =
     (case lazyLoad_begin rc st now loader options of
        (st1, Returned cached) \<Rightarrow> (st1, Inr cached, 0)
      | (st1, AwaitingActive p) \<Rightarrow> (st1, outcome p, 0)
      | (st1, AwaitingLoad p) \<Rightarrow>
          (let (st2, r) = lazyLoad_finish st1 later options p in (st2, r, invocations p)))"

section \<open>What a retried load invokes\<close>

lemma withRetry_loop_invocations_ge:
  "calls \<le> invocations (withRetry_loop rc cfg operation a le calls delays)"
proof (induction rc cfg operation a le calls delays rule: withRetry_loop.induct)
  case (1 rc cfg operation a lastError calls delays)
  show ?case
    apply (subst withRetry_loop.simps)
    using "1.IH" by (auto split: sum.splits option.splits intro: Suc_leD)
qed

lemma withRetry_loop_invocations_entered:
  "a \<le> cfg_maxRetries cfg + 1 \<Longrightarrow>
     Suc calls \<le> invocations (withRetry_loop rc cfg operation a le calls delays)"
  by (subst withRetry_loop.simps)
     (auto split: sum.splits simp: withRetry_loop_invocations_ge)

lemma withRetry_loop_invocations_le:
  "1 \<le> a \<Longrightarrow>
     invocations (withRetry_loop rc cfg operation a le calls delays)
       \<le> calls + nat (cfg_maxRetries cfg + 2 - a)"
proof (induction rc cfg operation a le calls delays rule: withRetry_loop.induct)
  case (1 rc cfg operation a lastError calls delays)
  show ?case
  proof (cases "a \<le> cfg_maxRetries cfg + 1")
    case False
    then show ?thesis
      by (subst withRetry_loop.simps) (simp split: option.splits)
  next
    case True
    show ?thesis
    proof (cases "withTimeout (operation calls) (cfg_timeout cfg)")
      case (Inr v)
      with True show ?thesis by (subst withRetry_loop.simps) simp
    next
      case (Inl e)
      show ?thesis
      proof (cases "a \<le> cfg_maxRetries cfg")
        case le: True
        have "invocations (withRetry_loop rc cfg operation (a + 1) (Some e) (Suc calls)
                 (delays @ [backoff_delay rc cfg a]))
                \<le> Suc calls + nat (cfg_maxRetries cfg + 2 - (a + 1))"
          using "1.IH"(1) [OF True Inl le] "1.prems" by simp
        with True Inl le show ?thesis
          by (subst withRetry_loop.simps) simp
      next
        case gt: False
        have "invocations (withRetry_loop rc cfg operation (a + 1) (Some e) (Suc calls) delays)
                \<le> Suc calls + nat (cfg_maxRetries cfg + 2 - (a + 1))"
          using "1.IH"(2) [OF True Inl gt] "1.prems" by simp
        with True Inl gt show ?thesis
          by (subst withRetry_loop.simps) simp
      qed
    qed
  qed
qed

lemma withRetry_invocations_le:
  "0 \<le> cfg_maxRetries (resolve_config rc options) \<Longrightarrow>
     invocations (withRetry rc operation options)
       \<le> nat (cfg_maxRetries (resolve_config rc options) + 1)"
  unfolding withRetry_def
  using withRetry_loop_invocations_le [of 1 rc "resolve_config rc options" operation None 0 "[]"]
  by simp

lemma withRetry_invocations_ge:
  "0 \<le> cfg_maxRetries (resolve_config rc options) \<Longrightarrow>
     1 \<le> invocations (withRetry rc operation options)"
  unfolding withRetry_def
  using withRetry_loop_invocations_entered [of 1 "resolve_config rc options" 0 rc operation None "[]"]
  by simp

lemma withRetry_Inr_entered:
  "outcome (withRetry rc operation options) = Inr v \<Longrightarrow>
     0 \<le> cfg_maxRetries (resolve_config rc options)"
  unfolding withRetry_def
  by (subst (asm) withRetry_loop.simps) (simp split: if_splits)

lemma cfg_maxRetries_context_options [simp]:
  "cfg_maxRetries (resolve_config rc (context_options c)) = maxRetries rc"
  by (simp add: resolve_config_def context_options_def or_default_def)

lemma cfg_maxRetries_network_first_options [simp]:
  "cfg_maxRetries (resolve_config rc (network_first_options key)) = 1"
  by (simp add: resolve_config_def network_first_options_def or_default_def)

lemma cfg_maxRetries_lazy_retry_options [simp]:
  "cfg_maxRetries (resolve_config rc (lazy_retry_options options)) = maxRetries rc"
  by (simp add: resolve_config_def lazy_retry_options_def or_default_def)

section \<open>Reading the cache twice\<close>

lemma cm_get_miss_stays:
  "\<not> truthy (fst (cm_get cm t k)) \<Longrightarrow> \<not> truthy (fst (cm_get (snd (cm_get cm t k)) t' k))"
  by (auto simp: cm_get_def delete_conv' split: option.splits if_splits)

lemma cm_get_no_expired:
  "\<forall>e. map_of (cache cm) k = Some e \<longrightarrow> \<not> isExpired t e \<Longrightarrow> snd (cm_get cm t k) = cm"
  by (auto simp: cm_get_def split: option.splits)

lemma cm_get_hit_unchanged: "truthy (fst (cm_get cm t k)) \<Longrightarrow> snd (cm_get cm t k) = cm"
  by (auto simp: cm_get_def split: option.splits if_splits)

lemma cm_get_other_keys:
  "k' \<noteq> k \<Longrightarrow> map_of (cache (snd (cm_get cm t k))) k' = map_of (cache cm) k'"
  by (auto simp: cm_get_def delete_conv' split: option.splits)

section \<open>The network-first strategy\<close>

lemma networkFirst_success:
  "outcome (withRetry rc loader (network_first_options key)) = Inr result \<Longrightarrow>
     networkFirst rc cm later key loader ttl_arg =
       \<lparr> returned = Inr result,
         cache_after = (if truthy result then cm_set cm later key result ttl_arg else cm),
         loader_calls = invocations (withRetry rc loader (network_first_options key)) \<rparr>"
  by (simp add: networkFirst_def store_if_truthy_def)

lemma networkFirst_failure:
  "outcome (withRetry rc loader (network_first_options key)) = Inl e \<Longrightarrow>
     networkFirst rc cm later key loader ttl_arg =
       \<lparr> returned = (if truthy (fst (cm_get cm later key))
                     then Inr (fst (cm_get cm later key)) else Inl e),
         cache_after = snd (cm_get cm later key),
         loader_calls = invocations (withRetry rc loader (network_first_options key)) \<rparr>"
  by (simp add: networkFirst_def split_beta)

lemma networkFirst_loader_calls:
  "loader_calls (networkFirst rc cm later key loader ttl_arg)
     = invocations (withRetry rc loader (network_first_options key))"
  by (cases "outcome (withRetry rc loader (network_first_options key))")
     (simp_all add: networkFirst_success networkFirst_failure)

text \<open>
  C8, as the code has it. \<^verbatim>\<open>networkFirst\<close> runs its load with a retry count of 1, so
  the loader is invoked once or twice. When the load succeeds its result is returned, and
  written into the cache if it is truthy; a falsy result leaves the cache as it was. When
  the load fails, the cache is read: a truthy value of an unexpired entry is returned in
  place of the failure, and the failure is thrown exactly when the read yields none.
\<close>

theorem C8_network_first:
  "cfg_maxRetries (resolve_config rc (network_first_options key)) = 1
   \<and> loader_calls (networkFirst rc cm later key loader ttl_arg)
        = invocations (withRetry rc loader (network_first_options key))
   \<and> 1 \<le> loader_calls (networkFirst rc cm later key loader ttl_arg)
   \<and> loader_calls (networkFirst rc cm later key loader ttl_arg) \<le> 2
   \<and> (outcome (withRetry rc loader (network_first_options key)) = Inr result \<longrightarrow>
        returned (networkFirst rc cm later key loader ttl_arg) = Inr result
        \<and> cache_after (networkFirst rc cm later key loader ttl_arg)
             = (if truthy result then cm_set cm later key result ttl_arg else cm))
   \<and> (outcome (withRetry rc loader (network_first_options key)) = Inl e \<longrightarrow>
        returned (networkFirst rc cm later key loader ttl_arg)
          = (if truthy (fst (cm_get cm later key))
             then Inr (fst (cm_get cm later key)) else Inl e)
        \<and> (returned (networkFirst rc cm later key loader ttl_arg) = Inl e
             \<longleftrightarrow> \<not> truthy (fst (cm_get cm later key)))
        \<and> cache_after (networkFirst rc cm later key loader ttl_arg) = snd (cm_get cm later key))"
proof -
  have m: "cfg_maxRetries (resolve_config rc (network_first_options key)) = 1" by simp
  have ge: "1 \<le> invocations (withRetry rc loader (network_first_options key))"
    by (rule withRetry_invocations_ge) simp
  have le: "invocations (withRetry rc loader (network_first_options key)) \<le> 2"
    using withRetry_invocations_le [of rc "network_first_options key" loader] by simp
  show ?thesis
    using m ge le
    by (auto simp: networkFirst_loader_calls networkFirst_success networkFirst_failure)
qed

definition stale_cache :: cache_manager where
  "stale_cache = cm_set new_CacheManager 0 ''services_'' (JStr ''old'') None"

theorem C8_network_first_witness:
  "returned (networkFirst new_retryConfig stale_cache 5 ''services_'' (\<lambda>i. Fulfilled (JStr ''new'')) (Some 1000))
     = Inr (JStr ''new'')
   \<and> cache_after (networkFirst new_retryConfig stale_cache 5 ''services_'' (\<lambda>i. Fulfilled (JStr ''new'')) (Some 1000))
     = cm_set stale_cache 5 ''services_'' (JStr ''new'') (Some 1000)
   \<and> returned (networkFirst new_retryConfig stale_cache 5 ''services_'' (\<lambda>i. TimedOut) (Some 1000))
     = Inr (JStr ''old'')
   \<and> returned (networkFirst new_retryConfig new_CacheManager 5 ''services_'' (\<lambda>i. Rejected (Error ''down'')) (Some 1000))
     = Inl (Error ''down'')"
proof -
  have ok: "outcome (withRetry new_retryConfig (\<lambda>i. Fulfilled (JStr ''new'')) (network_first_options ''services_''))
              = Inr (JStr ''new'')"
    by (simp add: withRetry_first_fulfilled)
  have to: "outcome (withRetry new_retryConfig (\<lambda>i. TimedOut) (network_first_options ''services_''))
              = Inl (Error ''Operacao excedeu timeout de 10000ms'')"
    unfolding withRetry_def
    by (simp add: withRetry_loop_all_fail withTimeout_def resolve_config_def
          network_first_options_def new_retryConfig_def or_default_def number_toString_def nat_decimal.simps)
  have dn: "outcome (withRetry new_retryConfig (\<lambda>i. Rejected (Error ''down'')) (network_first_options ''services_''))
              = Inl (Error ''down'')"
    unfolding withRetry_def
    by (simp add: withRetry_loop_all_fail withTimeout_def)
  have g1: "fst (cm_get stale_cache 5 ''services_'') = JStr ''old''"
    by (simp add: stale_cache_def cm_get_def map_of_cm_set isExpired_def new_CacheManager_def)
  have g2: "fst (cm_get new_CacheManager 5 ''services_'') = JNull"
    by (simp add: cm_get_def new_CacheManager_def)
  show ?thesis
    using C8_network_first [of new_retryConfig "''services_''" stale_cache 5
                               "\<lambda>i. Fulfilled (JStr ''new'')" "Some 1000" "JStr ''new''" undefined]
          C8_network_first [of new_retryConfig "''services_''" stale_cache 5
                               "\<lambda>i. TimedOut" "Some 1000" undefined
                               "Error ''Operacao excedeu timeout de 10000ms''"]
          C8_network_first [of new_retryConfig "''services_''" new_CacheManager 5
                               "\<lambda>i. Rejected (Error ''down'')" "Some 1000" undefined "Error ''down''"]
          ok to dn g1 g2
    by simp
qed

text \<open>
  The claim as the specification words it has every successful result written into the
  cache. A load that succeeds with \<open>0\<close> returns it and writes nothing.
\<close>

theorem C8_falsy_not_cached_counterexample:
  "returned (networkFirst new_retryConfig new_CacheManager 5 ''services_'' (\<lambda>i. Fulfilled (JNum 0)) (Some 1000))
     = Inr (JNum 0)
   \<and> cache (cache_after (networkFirst new_retryConfig new_CacheManager 5 ''services_''
                 (\<lambda>i. Fulfilled (JNum 0)) (Some 1000))) = []"
proof -
  have "outcome (withRetry new_retryConfig (\<lambda>i. Fulfilled (JNum 0)) (network_first_options ''services_''))
          = Inr (JNum 0)"
    by (simp add: withRetry_first_fulfilled)
  then show ?thesis
    by (simp add: networkFirst_success new_CacheManager_def)
qed

section \<open>Falsy results are returned and not cached\<close>

lemma cacheFirst_miss:
  "\<not> truthy (fst (cm_get cm now key)) \<Longrightarrow>
   outcome (withRetry rc loader (context_options (''cache-first: '' @ key))) = Inr v \<Longrightarrow>
     cacheFirst rc cm now later key loader ttl_arg =
       \<lparr> returned = Inr v,
         cache_after = store_if_truthy (snd (cm_get cm now key)) later key v ttl_arg,
         loader_calls = invocations (withRetry rc loader (context_options (''cache-first: '' @ key))) \<rparr>"
  by (simp add: cacheFirst_def split_beta)

lemma cacheFirst_miss_calls:
  "\<not> truthy (fst (cm_get cm now key)) \<Longrightarrow>
     loader_calls (cacheFirst rc cm now later key loader ttl_arg)
       = invocations (withRetry rc loader (context_options (''cache-first: '' @ key)))"
  by (cases "outcome (withRetry rc loader (context_options (''cache-first: '' @ key)))")
     (simp_all add: cacheFirst_def split_beta)

lemma staleWhileRevalidate_miss:
  "\<not> truthy (fst (cm_get cm now key)) \<Longrightarrow>
   outcome (withRetry rc loader (context_options (''initial load: '' @ key))) = Inr v \<Longrightarrow>
     staleWhileRevalidate rc cm now later key loader ttl_arg =
       \<lparr> returned = Inr v,
         cache_after = store_if_truthy (snd (cm_get cm now key)) later key v ttl_arg,
         loader_calls = invocations (withRetry rc loader (context_options (''initial load: '' @ key))) \<rparr>"
  by (simp add: staleWhileRevalidate_def split_beta)

lemma staleWhileRevalidate_miss_calls:
  "\<not> truthy (fst (cm_get cm now key)) \<Longrightarrow>
     loader_calls (staleWhileRevalidate rc cm now later key loader ttl_arg)
       = invocations (withRetry rc loader (context_options (''initial load: '' @ key)))"
  by (cases "outcome (withRetry rc loader (context_options (''initial load: '' @ key)))")
     (simp_all add: staleWhileRevalidate_def split_beta)

lemma staleWhileRevalidate_hit:
  "truthy (fst (cm_get cm now key)) \<Longrightarrow>
   outcome (withRetry rc loader (context_options (''revalidate: '' @ key))) = Inr v \<Longrightarrow>
     staleWhileRevalidate rc cm now later key loader ttl_arg =
       \<lparr> returned = Inr (fst (cm_get cm now key)),
         cache_after = store_if_truthy cm later key v ttl_arg,
         loader_calls = invocations (withRetry rc loader (context_options (''revalidate: '' @ key))) \<rparr>"
  by (simp add: staleWhileRevalidate_def split_beta cm_get_hit_unchanged)

lemma staleWhileRevalidate_hit_calls:
  "truthy (fst (cm_get cm now key)) \<Longrightarrow>
     loader_calls (staleWhileRevalidate rc cm now later key loader ttl_arg)
       = invocations (withRetry rc loader (context_options (''revalidate: '' @ key)))"
  by (simp add: staleWhileRevalidate_def split_beta Let_def)

lemma lazyLoad_load:
  assumes "truthy_key options = Some k"
      and "\<not> truthy (fst (cm_get (po_cache st) now k))"
      and "map_of (activeRequests st) k = None"
  shows "lazyLoad rc st now later loader options =
     (case outcome (withRetry rc loader (lazy_retry_options options)) of
        Inl e \<Rightarrow> (st \<lparr> po_cache := snd (cm_get (po_cache st) now k),
                      activeRequests := AList.delete k (activeRequests st) \<rparr>, Inl e,
                  invocations (withRetry rc loader (lazy_retry_options options)))
      | Inr v \<Rightarrow> (st \<lparr> po_cache := store_if_truthy (snd (cm_get (po_cache st) now k)) later k v
                                      (cacheTTL options),
                      activeRequests := AList.delete k (activeRequests st) \<rparr>, Inr v,
                  invocations (withRetry rc loader (lazy_retry_options options))))"
  using assms
  by (simp add: lazyLoad_def lazyLoad_begin_def lazyLoad_finish_def split_beta Let_def
        delete_update_same split: sum.splits)

lemma lazyLoad_load_calls:
  assumes "truthy_key options = Some k"
      and "\<not> truthy (fst (cm_get (po_cache st) now k))"
      and "map_of (activeRequests st) k = None"
  shows "snd (snd (lazyLoad rc st now later loader options))
           = invocations (withRetry rc loader (lazy_retry_options options))"
  by (simp add: lazyLoad_load [OF assms] split: sum.splits)

lemma cacheFirst_falsy:
  assumes "\<not> truthy v" and "\<not> truthy (fst (cm_get cm now key))"
      and "outcome (withRetry rc loader (context_options (''cache-first: '' @ key))) = Inr v"
  shows "returned (cacheFirst rc cm now later key loader ttl_arg) = Inr v"
    and "cache_after (cacheFirst rc cm now later key loader ttl_arg) = snd (cm_get cm now key)"
    and "1 \<le> loader_calls (cacheFirst rc (cache_after (cacheFirst rc cm now later key loader ttl_arg))
                 now' later' key loader' ttl_arg')"
proof -
  show r: "returned (cacheFirst rc cm now later key loader ttl_arg) = Inr v"
    by (simp add: cacheFirst_miss [OF assms(2,3)])
  show c: "cache_after (cacheFirst rc cm now later key loader ttl_arg) = snd (cm_get cm now key)"
    using assms(1) by (simp add: cacheFirst_miss [OF assms(2,3)] store_if_truthy_def)
  have m: "0 \<le> maxRetries rc"
    using withRetry_Inr_entered [OF assms(3)] by simp
  have miss: "\<not> truthy (fst (cm_get (snd (cm_get cm now key)) now' key))"
    by (rule cm_get_miss_stays [OF assms(2)])
  show "1 \<le> loader_calls (cacheFirst rc (cache_after (cacheFirst rc cm now later key loader ttl_arg))
                 now' later' key loader' ttl_arg')"
    unfolding c cacheFirst_miss_calls [OF miss]
    by (rule withRetry_invocations_ge) (simp add: m)
qed

lemma staleWhileRevalidate_falsy:
  assumes "\<not> truthy v" and "\<not> truthy (fst (cm_get cm now key))"
      and "outcome (withRetry rc loader (context_options (''initial load: '' @ key))) = Inr v"
  shows "returned (staleWhileRevalidate rc cm now later key loader ttl_arg) = Inr v"
    and "cache_after (staleWhileRevalidate rc cm now later key loader ttl_arg) = snd (cm_get cm now key)"
    and "1 \<le> loader_calls (staleWhileRevalidate rc
                 (cache_after (staleWhileRevalidate rc cm now later key loader ttl_arg))
                 now' later' key loader' ttl_arg')"
proof -
  show r: "returned (staleWhileRevalidate rc cm now later key loader ttl_arg) = Inr v"
    by (simp add: staleWhileRevalidate_miss [OF assms(2,3)])
  show c: "cache_after (staleWhileRevalidate rc cm now later key loader ttl_arg)
             = snd (cm_get cm now key)"
    using assms(1) by (simp add: staleWhileRevalidate_miss [OF assms(2,3)] store_if_truthy_def)
  have m: "0 \<le> maxRetries rc"
    using withRetry_Inr_entered [OF assms(3)] by simp
  have miss: "\<not> truthy (fst (cm_get (snd (cm_get cm now key)) now' key))"
    by (rule cm_get_miss_stays [OF assms(2)])
  show "1 \<le> loader_calls (staleWhileRevalidate rc
                 (cache_after (staleWhileRevalidate rc cm now later key loader ttl_arg))
                 now' later' key loader' ttl_arg')"
    unfolding c staleWhileRevalidate_miss_calls [OF miss]
    by (rule withRetry_invocations_ge) (simp add: m)
qed

lemma staleWhileRevalidate_hit_returned:
  "truthy (fst (cm_get cm now key)) \<Longrightarrow>
     returned (staleWhileRevalidate rc cm now later key loader ttl_arg)
       = Inr (fst (cm_get cm now key))"
  by (simp add: staleWhileRevalidate_def split_beta Let_def)

lemma staleWhileRevalidate_refresh_falsy:
  assumes "\<not> truthy v" and "truthy (fst (cm_get cm now key))"
      and "outcome (withRetry rc loader (context_options (''revalidate: '' @ key))) = Inr v"
  shows "returned (staleWhileRevalidate rc cm now later key loader ttl_arg)
           = Inr (fst (cm_get cm now key))"
    and "cache_after (staleWhileRevalidate rc cm now later key loader ttl_arg) = cm"
  using assms(1) by (simp_all add: staleWhileRevalidate_hit [OF assms(2,3)] store_if_truthy_def)

lemma networkFirst_falsy:
  assumes "\<not> truthy v"
      and "outcome (withRetry rc loader (network_first_options key)) = Inr v"
  shows "returned (networkFirst rc cm later key loader ttl_arg) = Inr v"
    and "cache_after (networkFirst rc cm later key loader ttl_arg) = cm"
    and "1 \<le> loader_calls (networkFirst rc cm' later' key loader' ttl_arg')"
proof -
  show "returned (networkFirst rc cm later key loader ttl_arg) = Inr v"
    by (simp add: networkFirst_success [OF assms(2)])
  show "cache_after (networkFirst rc cm later key loader ttl_arg) = cm"
    using assms(1) by (simp add: networkFirst_success [OF assms(2)])
  show "1 \<le> loader_calls (networkFirst rc cm' later' key loader' ttl_arg')"
    unfolding networkFirst_loader_calls
    by (rule withRetry_invocations_ge) simp
qed

lemma lazyLoad_falsy:
  assumes "\<not> truthy v" and "truthy_key options = Some k"
      and "\<not> truthy (fst (cm_get (po_cache st) now k))"
      and "map_of (activeRequests st) k = None"
      and "outcome (withRetry rc loader (lazy_retry_options options)) = Inr v"
  shows "fst (snd (lazyLoad rc st now later loader options)) = Inr v"
    and "po_cache (fst (lazyLoad rc st now later loader options)) = snd (cm_get (po_cache st) now k)"
    and "map_of (activeRequests (fst (lazyLoad rc st now later loader options))) k = None"
    and "truthy_key options' = Some k \<Longrightarrow>
           1 \<le> snd (snd (lazyLoad rc (fst (lazyLoad rc st now later loader options))
                            now' later' loader' options'))"
proof -
  note run = lazyLoad_load [OF assms(2,3,4), of rc later loader]
  show "fst (snd (lazyLoad rc st now later loader options)) = Inr v"
    by (simp add: run assms(5))
  show c: "po_cache (fst (lazyLoad rc st now later loader options)) = snd (cm_get (po_cache st) now k)"
    using assms(1) by (simp add: run assms(5) store_if_truthy_def)
  show a: "map_of (activeRequests (fst (lazyLoad rc st now later loader options))) k = None"
    by (simp add: run assms(5) delete_conv')
  have m: "0 \<le> maxRetries rc"
    using withRetry_Inr_entered [OF assms(5)] by simp
  have miss: "\<not> truthy (fst (cm_get (po_cache (fst (lazyLoad rc st now later loader options))) now' k))"
    unfolding c by (rule cm_get_miss_stays [OF assms(3)])
  show "1 \<le> snd (snd (lazyLoad rc (fst (lazyLoad rc st now later loader options))
                            now' later' loader' options'))"
    if k': "truthy_key options' = Some k"
    unfolding lazyLoad_load_calls [OF k' miss a]
    by (rule withRetry_invocations_ge) (simp add: m)
qed

text \<open>
  C9, as the code has it. Let the loader settle with a falsy value \<open>v\<close>. In a call where
  the strategy waits for the loader, which is \<^verbatim>\<open>cacheFirst\<close>, \<^verbatim>\<open>staleWhileRevalidate\<close> and
  \<^verbatim>\<open>lazyLoad\<close> after their read of the cache has missed (and, for \<^verbatim>\<open>lazyLoad\<close>, with a
  truthy key and no load of the key in flight), and \<^verbatim>\<open>networkFirst\<close> always, \<open>v\<close> is
  returned and nothing is written: the cache is the one the strategy's own read left,
  which is the cache as it was unless that read met an expired entry of the key and
  deleted it; and any later call for the same key invokes the loader again. When
  \<^verbatim>\<open>staleWhileRevalidate\<close> finds a truthy cached value, it is that value which is
  returned, not \<open>v\<close>: the falsy value only reaches the refresh in the background, which
  writes nothing, so that the cache stays as it was and a later call is served from the
  entry as long as it is valid.
\<close>

theorem C9_falsy_not_cached:
  assumes "\<not> truthy v"
  shows
   "(\<not> truthy (fst (cm_get cm now key))
       \<and> outcome (withRetry rc loader (context_options (''cache-first: '' @ key))) = Inr v \<longrightarrow>
         returned (cacheFirst rc cm now later key loader ttl_arg) = Inr v
       \<and> cache_after (cacheFirst rc cm now later key loader ttl_arg) = snd (cm_get cm now key)
       \<and> ((\<forall>e. map_of (cache cm) key = Some e \<longrightarrow> \<not> isExpired now e) \<longrightarrow>
            cache_after (cacheFirst rc cm now later key loader ttl_arg) = cm)
       \<and> (\<forall>now' later' loader' ttl_arg'.
            1 \<le> loader_calls (cacheFirst rc (cache_after (cacheFirst rc cm now later key loader ttl_arg))
                                now' later' key loader' ttl_arg')))
    \<and> (outcome (withRetry rc loader (network_first_options key)) = Inr v \<longrightarrow>
         returned (networkFirst rc cm later key loader ttl_arg) = Inr v
       \<and> cache_after (networkFirst rc cm later key loader ttl_arg) = cm
       \<and> (\<forall>later' loader' ttl_arg'.
            1 \<le> loader_calls (networkFirst rc (cache_after (networkFirst rc cm later key loader ttl_arg))
                                later' key loader' ttl_arg')))
    \<and> (\<not> truthy (fst (cm_get cm now key))
       \<and> outcome (withRetry rc loader (context_options (''initial load: '' @ key))) = Inr v \<longrightarrow>
         returned (staleWhileRevalidate rc cm now later key loader ttl_arg) = Inr v
       \<and> cache_after (staleWhileRevalidate rc cm now later key loader ttl_arg) = snd (cm_get cm now key)
       \<and> ((\<forall>e. map_of (cache cm) key = Some e \<longrightarrow> \<not> isExpired now e) \<longrightarrow>
            cache_after (staleWhileRevalidate rc cm now later key loader ttl_arg) = cm)
       \<and> (\<forall>now' later' loader' ttl_arg'.
            1 \<le> loader_calls (staleWhileRevalidate rc
                                (cache_after (staleWhileRevalidate rc cm now later key loader ttl_arg))
                                now' later' key loader' ttl_arg')))
    \<and> (truthy (fst (cm_get cm now key))
       \<and> outcome (withRetry rc loader (context_options (''revalidate: '' @ key))) = Inr v \<longrightarrow>
         returned (staleWhileRevalidate rc cm now later key loader ttl_arg)
           = Inr (fst (cm_get cm now key))
       \<and> cache_after (staleWhileRevalidate rc cm now later key loader ttl_arg) = cm
       \<and> (\<forall>now' later' loader' ttl_arg'. truthy (fst (cm_get cm now' key)) \<longrightarrow>
            returned (staleWhileRevalidate rc
                        (cache_after (staleWhileRevalidate rc cm now later key loader ttl_arg))
                        now' later' key loader' ttl_arg')
              = Inr (fst (cm_get cm now' key))))
    \<and> (truthy_key options = Some key
       \<and> \<not> truthy (fst (cm_get (po_cache st) now key))
       \<and> map_of (activeRequests st) key = None
       \<and> outcome (withRetry rc loader (lazy_retry_options options)) = Inr v \<longrightarrow>
         fst (snd (lazyLoad rc st now later loader options)) = Inr v
       \<and> po_cache (fst (lazyLoad rc st now later loader options))
           = snd (cm_get (po_cache st) now key)
       \<and> ((\<forall>e. map_of (cache (po_cache st)) key = Some e \<longrightarrow> \<not> isExpired now e) \<longrightarrow>
            po_cache (fst (lazyLoad rc st now later loader options)) = po_cache st)
       \<and> (\<forall>now' later' loader' options'. truthy_key options' = Some key \<longrightarrow>
            1 \<le> snd (snd (lazyLoad rc (fst (lazyLoad rc st now later loader options))
                             now' later' loader' options'))))"
proof (intro conjI impI allI; (elim conjE)?)
  assume h: "\<not> truthy (fst (cm_get cm now key))"
    "outcome (withRetry rc loader (context_options (''cache-first: '' @ key))) = Inr v"
  note f = cacheFirst_falsy [OF assms h]
  show "returned (cacheFirst rc cm now later key loader ttl_arg) = Inr v" by (rule f(1))
  show "cache_after (cacheFirst rc cm now later key loader ttl_arg) = snd (cm_get cm now key)"
    by (rule f(2))
  show "cache_after (cacheFirst rc cm now later key loader ttl_arg) = cm"
    if "\<forall>e. map_of (cache cm) key = Some e \<longrightarrow> \<not> isExpired now e"
    using that by (simp add: f(2) cm_get_no_expired)
  show "1 \<le> loader_calls (cacheFirst rc (cache_after (cacheFirst rc cm now later key loader ttl_arg))
                                now' later' key loader' ttl_arg')"
    for now' later' loader' ttl_arg' by (rule f(3))
next
  assume h: "outcome (withRetry rc loader (network_first_options key)) = Inr v"
  note f = networkFirst_falsy [OF assms h]
  show "returned (networkFirst rc cm later key loader ttl_arg) = Inr v" by (rule f(1))
  show "cache_after (networkFirst rc cm later key loader ttl_arg) = cm" by (rule f(2))
  show "1 \<le> loader_calls (networkFirst rc (cache_after (networkFirst rc cm later key loader ttl_arg))
                                later' key loader' ttl_arg')"
    for later' loader' ttl_arg' by (rule f(3))
next
  assume h: "\<not> truthy (fst (cm_get cm now key))"
    "outcome (withRetry rc loader (context_options (''initial load: '' @ key))) = Inr v"
  note f = staleWhileRevalidate_falsy [OF assms h]
  show "returned (staleWhileRevalidate rc cm now later key loader ttl_arg) = Inr v" by (rule f(1))
  show "cache_after (staleWhileRevalidate rc cm now later key loader ttl_arg) = snd (cm_get cm now key)"
    by (rule f(2))
  show "cache_after (staleWhileRevalidate rc cm now later key loader ttl_arg) = cm"
    if "\<forall>e. map_of (cache cm) key = Some e \<longrightarrow> \<not> isExpired now e"
    using that by (simp add: f(2) cm_get_no_expired)
  show "1 \<le> loader_calls (staleWhileRevalidate rc
                                (cache_after (staleWhileRevalidate rc cm now later key loader ttl_arg))
                                now' later' key loader' ttl_arg')"
    for now' later' loader' ttl_arg' by (rule f(3))
next
  assume h: "truthy (fst (cm_get cm now key))"
    "outcome (withRetry rc loader (context_options (''revalidate: '' @ key))) = Inr v"
  note f = staleWhileRevalidate_refresh_falsy [OF assms h]
  show "returned (staleWhileRevalidate rc cm now later key loader ttl_arg)
           = Inr (fst (cm_get cm now key))" by (rule f(1))
  show "cache_after (staleWhileRevalidate rc cm now later key loader ttl_arg) = cm" by (rule f(2))
  show "returned (staleWhileRevalidate rc
                        (cache_after (staleWhileRevalidate rc cm now later key loader ttl_arg))
                        now' later' key loader' ttl_arg')
              = Inr (fst (cm_get cm now' key))"
    if "truthy (fst (cm_get cm now' key))" for now' later' loader' ttl_arg'
    unfolding f(2) using that by (rule staleWhileRevalidate_hit_returned)
next
  assume h: "truthy_key options = Some key" "\<not> truthy (fst (cm_get (po_cache st) now key))"
    "map_of (activeRequests st) key = None"
    "outcome (withRetry rc loader (lazy_retry_options options)) = Inr v"
  note f = lazyLoad_falsy [OF assms h]
  show "fst (snd (lazyLoad rc st now later loader options)) = Inr v" by (rule f(1))
  show "po_cache (fst (lazyLoad rc st now later loader options)) = snd (cm_get (po_cache st) now key)"
    by (rule f(2))
  show "po_cache (fst (lazyLoad rc st now later loader options)) = po_cache st"
    if "\<forall>e. map_of (cache (po_cache st)) key = Some e \<longrightarrow> \<not> isExpired now e"
    using that by (simp add: f(2) cm_get_no_expired)
  show "1 \<le> snd (snd (lazyLoad rc (fst (lazyLoad rc st now later loader options))
                             now' later' loader' options'))"
    if "truthy_key options' = Some key" for now' later' loader' options'
    using that by (rule f(4))
qed

definition zero_loader :: operation where
  "zero_loader = (\<lambda>i. Fulfilled (JNum 0))"

definition services_options :: lazy_options where
  "services_options = \<lparr> cacheKey = Some ''services_'', lz_context = None, lz_timeout = None,
                         cacheTTL = None \<rparr>"

definition new_optimizer :: optimizer_state where
  "new_optimizer = \<lparr> po_cache = new_CacheManager, activeRequests = [] \<rparr>"

theorem C9_falsy_not_cached_witness:
  "returned (cacheFirst new_retryConfig new_CacheManager 5 9 ''services_'' zero_loader None)
     = Inr (JNum 0)
   \<and> cache_after (cacheFirst new_retryConfig new_CacheManager 5 9 ''services_'' zero_loader None)
     = new_CacheManager
   \<and> 1 \<le> loader_calls (cacheFirst new_retryConfig
            (cache_after (cacheFirst new_retryConfig new_CacheManager 5 9 ''services_'' zero_loader None))
            20 30 ''services_'' zero_loader None)
   \<and> returned (networkFirst new_retryConfig new_CacheManager 9 ''services_'' zero_loader None)
     = Inr (JNum 0)
   \<and> cache_after (networkFirst new_retryConfig new_CacheManager 9 ''services_'' zero_loader None)
     = new_CacheManager
   \<and> returned (staleWhileRevalidate new_retryConfig new_CacheManager 5 9 ''services_'' zero_loader None)
     = Inr (JNum 0)
   \<and> cache_after (staleWhileRevalidate new_retryConfig new_CacheManager 5 9 ''services_'' zero_loader None)
     = new_CacheManager
   \<and> returned (staleWhileRevalidate new_retryConfig stale_cache 5 9 ''services_'' zero_loader None)
     = Inr (JStr ''old'')
   \<and> cache_after (staleWhileRevalidate new_retryConfig stale_cache 5 9 ''services_'' zero_loader None)
     = stale_cache
   \<and> returned (staleWhileRevalidate new_retryConfig
        (cache_after (staleWhileRevalidate new_retryConfig stale_cache 5 9 ''services_'' zero_loader None))
        20 30 ''services_'' zero_loader None)
     = Inr (JStr ''old'')
   \<and> fst (snd (lazyLoad new_retryConfig new_optimizer 5 9 zero_loader services_options))
     = Inr (JNum 0)
   \<and> po_cache (fst (lazyLoad new_retryConfig new_optimizer 5 9 zero_loader services_options))
     = new_CacheManager
   \<and> 1 \<le> snd (snd (lazyLoad new_retryConfig
            (fst (lazyLoad new_retryConfig new_optimizer 5 9 zero_loader services_options))
            20 30 zero_loader services_options))"
proof -
  have v: "\<not> truthy (JNum 0)" by simp
  have o: "outcome (withRetry new_retryConfig zero_loader options) = Inr (JNum 0)"
    if "0 \<le> cfg_maxRetries (resolve_config new_retryConfig options)" for options
    using that by (simp add: withRetry_first_fulfilled zero_loader_def)
  have o1: "outcome (withRetry new_retryConfig zero_loader (context_options (''cache-first: '' @ ''services_'')))
              = Inr (JNum 0)"
    by (rule o) (simp add: new_retryConfig_def)
  have o2: "outcome (withRetry new_retryConfig zero_loader (network_first_options ''services_''))
              = Inr (JNum 0)"
    by (rule o) simp
  have o3: "outcome (withRetry new_retryConfig zero_loader (context_options (''initial load: '' @ ''services_'')))
              = Inr (JNum 0)"
    by (rule o) (simp add: new_retryConfig_def)
  have o4: "outcome (withRetry new_retryConfig zero_loader (lazy_retry_options services_options))
              = Inr (JNum 0)"
    by (rule o) (simp add: new_retryConfig_def)
  have g: "cm_get new_CacheManager 5 ''services_'' = (JNull, new_CacheManager)"
    by (simp add: cm_get_def new_CacheManager_def)
  have k: "truthy_key services_options = Some ''services_''"
    by (simp add: truthy_key_def services_options_def)
  have s: "po_cache new_optimizer = new_CacheManager" "activeRequests new_optimizer = []"
    by (simp_all add: new_optimizer_def)
  note T = C9_falsy_not_cached [OF v, of new_CacheManager 5 "''services_''" new_retryConfig
         zero_loader 9 None services_options new_optimizer]
  have c1: "\<not> truthy (fst (cm_get new_CacheManager 5 ''services_''))
       \<and> outcome (withRetry new_retryConfig zero_loader
                    (context_options (''cache-first: '' @ ''services_''))) = Inr (JNum 0)"
    using g o1 by simp
  have c3: "\<not> truthy (fst (cm_get new_CacheManager 5 ''services_''))
       \<and> outcome (withRetry new_retryConfig zero_loader
                    (context_options (''initial load: '' @ ''services_''))) = Inr (JNum 0)"
    using g o3 by simp
  have c5: "truthy_key services_options = Some ''services_''
       \<and> \<not> truthy (fst (cm_get (po_cache new_optimizer) 5 ''services_''))
       \<and> map_of (activeRequests new_optimizer) ''services_'' = None
       \<and> outcome (withRetry new_retryConfig zero_loader (lazy_retry_options services_options))
           = Inr (JNum 0)"
    using g o4 k s by simp
  note p1 = T [THEN conjunct1, THEN mp, OF c1]
  note p2 = T [THEN conjunct2, THEN conjunct1, THEN mp, OF o2]
  note p3 = T [THEN conjunct2, THEN conjunct2, THEN conjunct1, THEN mp, OF c3]
  note p5 = T [THEN conjunct2, THEN conjunct2, THEN conjunct2, THEN conjunct2, THEN mp, OF c5]
  have old: "fst (cm_get stale_cache t ''services_'') = JStr ''old''" if "t \<le> 300000" for t :: int
    using that
    by (simp add: stale_cache_def cm_get_def cm_set_def new_CacheManager_def isExpired_def
          update_conv')
  have o6: "outcome (withRetry new_retryConfig zero_loader
              (context_options (''revalidate: '' @ ''services_''))) = Inr (JNum 0)"
    by (rule o) (simp add: new_retryConfig_def)
  have c4: "truthy (fst (cm_get stale_cache 5 ''services_''))
       \<and> outcome (withRetry new_retryConfig zero_loader
                    (context_options (''revalidate: '' @ ''services_''))) = Inr (JNum 0)"
    using o6 by (simp add: old)
  have l4: "truthy (fst (cm_get stale_cache 20 ''services_''))"
    by (simp add: old)
  note p4 = C9_falsy_not_cached [OF v, of stale_cache 5 "''services_''" new_retryConfig
         zero_loader 9 None services_options new_optimizer,
         THEN conjunct2, THEN conjunct2, THEN conjunct2, THEN conjunct1, THEN mp, OF c4]
  have served: "returned (staleWhileRevalidate new_retryConfig
        (cache_after (staleWhileRevalidate new_retryConfig stale_cache 5 9 ''services_'' zero_loader None))
        20 30 ''services_'' zero_loader None)
     = Inr (JStr ''old'')"
    using p4 [THEN conjunct2, THEN conjunct2, THEN spec, THEN spec, THEN spec, THEN spec,
              THEN mp, OF l4, of 30 zero_loader None]
    by (simp add: old)
  have again: "1 \<le> snd (snd (lazyLoad new_retryConfig
            (fst (lazyLoad new_retryConfig new_optimizer 5 9 zero_loader services_options))
            20 30 zero_loader services_options))"
    using p5 [THEN conjunct2, THEN conjunct2, THEN conjunct2, THEN spec, THEN spec, THEN spec,
              THEN spec, THEN mp, OF k] .
  show ?thesis
    using p1 [THEN conjunct1] p1 [THEN conjunct2, THEN conjunct1]
          p1 [THEN conjunct2, THEN conjunct2, THEN conjunct2, THEN spec, THEN spec, THEN spec,
              THEN spec, of 20 30 zero_loader None]
          p2 [THEN conjunct1] p2 [THEN conjunct2, THEN conjunct1]
          p3 [THEN conjunct1] p3 [THEN conjunct2, THEN conjunct1]
          p4 [THEN conjunct1] p4 [THEN conjunct2, THEN conjunct1] served
          p5 [THEN conjunct1] p5 [THEN conjunct2, THEN conjunct1] again
    by (simp add: g s old)
qed

text \<open>
  The claim as the specification words it has the falsy value returned by every
  strategy. With a valid entry \<^verbatim>\<open>'old'\<close> for the key and a loader that settles with \<open>0\<close>,
  \<^verbatim>\<open>staleWhileRevalidate\<close> invokes the loader, which settles with \<open>0\<close>, and returns
  \<^verbatim>\<open>'old'\<close>.
\<close>

theorem C9_stale_hit_counterexample:
  "\<not> truthy (JNum 0)
   \<and> outcome (withRetry new_retryConfig zero_loader (context_options (''revalidate: '' @ ''services_'')))
       = Inr (JNum 0)
   \<and> loader_calls (staleWhileRevalidate new_retryConfig stale_cache 5 9 ''services_'' zero_loader None)
       = 1
   \<and> returned (staleWhileRevalidate new_retryConfig stale_cache 5 9 ''services_'' zero_loader None)
       = Inr (JStr ''old'')"
proof -
  have run: "withRetry new_retryConfig zero_loader (context_options (''revalidate: '' @ ''services_''))
               = \<lparr> outcome = Inr (JNum 0), invocations = 1, slept = [] \<rparr>"
    by (rule withRetry_first_fulfilled) (simp_all add: zero_loader_def new_retryConfig_def)
  have old: "fst (cm_get stale_cache 5 ''services_'') = JStr ''old''"
    by (simp add: stale_cache_def cm_get_def cm_set_def new_CacheManager_def isExpired_def
          update_conv')
  have hit: "truthy (fst (cm_get stale_cache 5 ''services_''))"
    by (simp add: old)
  show ?thesis
    using run
    by (simp add: staleWhileRevalidate_hit_calls [OF hit] staleWhileRevalidate_hit_returned [OF hit]
          old)
qed

section \<open>The order of the properties of an object\<close>

text \<open>
  The order in which \<^verbatim>\<open>Object.keys\<close> and \<^verbatim>\<open>JSON.stringify\<close> visit the properties of an
  object: the names that are array indices come first, in ascending numeric order, and
  the other names follow in the order they were created. A name is an
  array index when it is the decimal text of an integer from \<open>0\<close> to \<open>4294967294\<close>: digits
  only, and printing the number it denotes gives the name back.
\<close>

definition is_digit :: "char \<Rightarrow> bool" where
  "is_digit c = (c \<in> set ''0123456789'')"

definition decimal_value :: "string \<Rightarrow> int" where
  "decimal_value s = foldl (\<lambda>n c. 10 * n + (of_char c - 48)) 0 s"

definition is_array_index :: "string \<Rightarrow> bool" where
  "is_array_index s =
     (s \<noteq> [] \<and> list_all is_digit s \<and> number_toString (decimal_value s) = s
      \<and> decimal_value s < 4294967295)"

definition own_property_order :: "(string \<times> 'a) list \<Rightarrow> (string \<times> 'a) list" where
  "own_property_order fs =
     sort_key (\<lambda>(k, v). decimal_value k) (filter (\<lambda>(k, v). is_array_index k) fs)
     @ filter (\<lambda>(k, v). \<not> is_array_index k) fs"

lemma set_own_property_order: "set (own_property_order fs) = set fs"
  by (auto simp: own_property_order_def)

section \<open>JSON text and cache keys\<close>

text \<open>
  \<^verbatim>\<open>JSON.stringify\<close> on a string: the double quote and the backslash are escaped with a
  backslash, the control characters below U+0020 by their short escape or by
  \<^verbatim>\<open>\u00XX\<close> in lower-case hexadecimal, and every other character stands for itself.
\<close>

definition hex_digit :: "nat \<Rightarrow> char" where
  "hex_digit d = ''0123456789abcdef'' ! d"

definition json_escape_char :: "char \<Rightarrow> string" where
  "json_escape_char c =
     (if c = CHR 0x22 then [CHR 0x5C, CHR 0x22]
      else if c = CHR 0x5C then [CHR 0x5C, CHR 0x5C]
      else if c = CHR 0x08 then [CHR 0x5C, CHR ''b'']
      else if c = CHR 0x09 then [CHR 0x5C, CHR ''t'']
      else if c = CHR 0x0A then [CHR 0x5C, CHR ''n'']
      else if c = CHR 0x0C then [CHR 0x5C, CHR ''f'']
      else if c = CHR 0x0D then [CHR 0x5C, CHR ''r'']
      else if (of_char c :: nat) < 32
           then [CHR 0x5C, CHR ''u'', CHR ''0'', CHR ''0'',
                 hex_digit (of_char c div 16), hex_digit (of_char c mod 16)]
      else [c])"

definition json_quote :: "string \<Rightarrow> string" where
  "json_quote s = CHR 0x22 # concat (map json_escape_char s) @ [CHR 0x22]"

text \<open>
  \<^verbatim>\<open>JSON.stringify\<close> on a value; \<open>None\<close> is the result \<^verbatim>\<open>undefined\<close>. An element of an
  array that has no JSON text is written \<^verbatim>\<open>null\<close>; a field of an object that has none is
  left out; the fields that remain are written in the order of the object's properties.
\<close>

function stringify :: "jsval \<Rightarrow> string option" where
  "stringify JUndefined = None"
| "stringify JNull = Some ''null''"
| "stringify (JBool b) = Some (if b then ''true'' else ''false'')"
| "stringify (JNum n) = Some (number_toString n)"
| "stringify (JStr s) = Some (json_quote s)"
| "stringify (JArr xs) =
     Some (''['' @ join '','' (map (\<lambda>x. case stringify x of None \<Rightarrow> ''null'' | Some t \<Rightarrow> t) xs)
           @ '']'')"
| "stringify (JObj fs) =
     Some (''{'' @ join '','' (concat (map (\<lambda>(k, v). case stringify v of
                                                    None \<Rightarrow> []
                                                  | Some t \<Rightarrow> [json_quote k @ '':'' @ t])
                                       (own_property_order fs)))
           @ ''}'')"
  by pat_completeness auto
termination
proof (relation "measure size")
  show "wf (measure size)" by simp
next
  fix xs :: "jsval list" and x
  assume "x \<in> set xs"
  then show "(x, JArr xs) \<in> measure size"
    by (induction xs) auto
next
  fix fs :: "(string \<times> jsval) list" and p k v
  assume "p \<in> set (own_property_order fs)" and "(k, v) = p"
  then have "(k, v) \<in> set fs"
    by (simp add: set_own_property_order)
  then show "(v, JObj fs) \<in> measure size"
    by (induction fs) auto
qed

text \<open>A template literal prints the missing text as \<^verbatim>\<open>undefined\<close>.\<close>

definition template_text :: "string option \<Rightarrow> string" where
  "template_text t = (case t of None \<Rightarrow> ''undefined'' | Some s \<Rightarrow> s)"

text \<open>\<^verbatim>\<open>Object.keys(params)\<close>.\<close>

definition object_keys :: "(string \<times> jsval) list \<Rightarrow> string list" where
  "object_keys params = map fst (own_property_order params)"

text \<open>
  \<^verbatim>\<open>CacheManager.generateKey(prefix, params = {})\<close>; the parameters are an object, given
  by its properties.
\<close>

definition generateKey :: "string \<Rightarrow> (string \<times> jsval) list \<Rightarrow> string" where
  "generateKey pfx params =
     (let paramString = (if length (object_keys params) > 0
                         then template_text (stringify (JObj params)) else [])
      in pfx @ ''_'' @ paramString)"

text \<open>\<^verbatim>\<open>SupabaseClient.getCacheKey(table, params = {})\<close>.\<close>

definition getCacheKey :: "string \<Rightarrow> (string \<times> jsval) list \<Rightarrow> string" where
  "getCacheKey table params = table @ ''_'' @ template_text (stringify (JObj params))"

section \<open>Cache keys follow the order of the fields\<close>

lemma hex_digit_inject: "a < 16 \<Longrightarrow> b < 16 \<Longrightarrow> hex_digit a = hex_digit b \<Longrightarrow> a = b"
proof -
  assume a: "a < 16" and b: "b < 16" and e: "hex_digit a = hex_digit b"
  have d: "distinct ''0123456789abcdef''" by simp
  have l: "length ''0123456789abcdef'' = 16" by simp
  from e have "''0123456789abcdef'' ! a = ''0123456789abcdef'' ! b"
    by (simp only: hex_digit_def)
  with d a b l show "a = b"
    by (simp only: nth_eq_iff_index_eq)
qed

lemma control_char_inject:
  assumes "(of_char c :: nat) < 32" and "(of_char d :: nat) < 32"
      and "hex_digit (of_char c div 16) = hex_digit (of_char d div 16)"
      and "hex_digit (of_char c mod 16) = hex_digit (of_char d mod 16)"
  shows "c = d"
proof -
  have "(of_char c :: nat) div 16 = of_char d div 16"
    using assms(1,2,3) by (intro hex_digit_inject) simp_all
  moreover have "(of_char c :: nat) mod 16 = of_char d mod 16"
    using assms(4) by (intro hex_digit_inject) simp_all
  ultimately have "(of_char c :: nat) = of_char d"
    by (metis div_mult_mod_eq)
  then show ?thesis by simp
qed

lemma json_escape_char_shape:
  "json_escape_char d = [d] \<and> d \<noteq> CHR 0x5C \<and> d \<noteq> CHR 0x22
   \<or> (\<exists>y. json_escape_char d = [CHR 0x5C, y] \<and> y \<noteq> CHR ''u'')
   \<or> (json_escape_char d = [CHR 0x5C, CHR ''u'', CHR ''0'', CHR ''0'',
                               hex_digit (of_char d div 16), hex_digit (of_char d mod 16)]
        \<and> (of_char d :: nat) < 32)"
  by (auto simp: json_escape_char_def)

lemma json_escape_char_short_inject:
  "json_escape_char c = [CHR 0x5C, x] \<Longrightarrow> json_escape_char d = [CHR 0x5C, x] \<Longrightarrow> c = d"
  by (auto simp: json_escape_char_def split: if_splits)

lemma json_escape_char_first:
  "\<exists>x xs. json_escape_char c = x # xs \<and> x \<noteq> CHR 0x22"
  by (simp add: json_escape_char_def)

lemma json_escape_char_prefix_code:
  assumes eq: "json_escape_char c @ X = json_escape_char d @ Y"
  shows "c = d"
  using json_escape_char_shape [of c]
proof (elim disjE exE conjE)
  assume c: "json_escape_char c = [c]" "c \<noteq> CHR 0x5C"
  from json_escape_char_shape [of d] show ?thesis
  proof (elim disjE exE conjE)
    assume "json_escape_char d = [d]"
    with c eq show ?thesis by simp
  next
    fix y assume "json_escape_char d = [CHR 0x5C, y]"
    with c eq show ?thesis by simp
  next
    assume "json_escape_char d = [CHR 0x5C, CHR ''u'', CHR ''0'', CHR ''0'',
                               hex_digit (of_char d div 16), hex_digit (of_char d mod 16)]"
    with c eq show ?thesis by simp
  qed
next
  fix x assume c: "json_escape_char c = [CHR 0x5C, x]" "x \<noteq> CHR ''u''"
  from json_escape_char_shape [of d] show ?thesis
  proof (elim disjE exE conjE)
    assume "json_escape_char d = [d]" "d \<noteq> CHR 0x5C"
    with c eq show ?thesis by simp
  next
    fix y assume d: "json_escape_char d = [CHR 0x5C, y]"
    with c(1) eq have "y = x" by simp
    with d have "json_escape_char d = [CHR 0x5C, x]" by simp
    with c(1) show ?thesis by (rule json_escape_char_short_inject)
  next
    assume "json_escape_char d = [CHR 0x5C, CHR ''u'', CHR ''0'', CHR ''0'',
                               hex_digit (of_char d div 16), hex_digit (of_char d mod 16)]"
    with c eq show ?thesis by simp
  qed
next
  assume c: "json_escape_char c = [CHR 0x5C, CHR ''u'', CHR ''0'', CHR ''0'',
                               hex_digit (of_char c div 16), hex_digit (of_char c mod 16)]"
            "(of_char c :: nat) < 32"
  from json_escape_char_shape [of d] show ?thesis
  proof (elim disjE exE conjE)
    assume "json_escape_char d = [d]" "d \<noteq> CHR 0x5C"
    with c eq show ?thesis by simp
  next
    fix y assume "json_escape_char d = [CHR 0x5C, y]" "y \<noteq> CHR ''u''"
    with c eq show ?thesis by simp
  next
    assume d: "json_escape_char d = [CHR 0x5C, CHR ''u'', CHR ''0'', CHR ''0'',
                               hex_digit (of_char d div 16), hex_digit (of_char d mod 16)]"
              "(of_char d :: nat) < 32"
    from c(1) d(1) eq
    have "hex_digit (of_char c div 16) = hex_digit (of_char d div 16)"
         "hex_digit (of_char c mod 16) = hex_digit (of_char d mod 16)" by simp_all
    with c(2) d(2) show ?thesis by (rule control_char_inject)
  qed
qed

lemma escaped_prefix_code:
  "concat (map json_escape_char a) @ CHR 0x22 # r1
     = concat (map json_escape_char b) @ CHR 0x22 # r2 \<Longrightarrow> a = b"
proof (induction a arbitrary: b)
  case Nil
  show ?case
  proof (cases b)
    case Nil
    then show ?thesis by simp
  next
    case (Cons d ds)
    obtain x xs where "json_escape_char d = x # xs" "x \<noteq> CHR 0x22"
      using json_escape_char_first by blast
    with Nil.prems Cons show ?thesis by simp
  qed
next
  case (Cons c cs)
  show ?case
  proof (cases b)
    case Nil
    obtain x xs where "json_escape_char c = x # xs" "x \<noteq> CHR 0x22"
      using json_escape_char_first by blast
    with Cons.prems Nil show ?thesis by simp
  next
    case (Cons d ds)
    with Cons.prems have e: "json_escape_char c @ (concat (map json_escape_char cs) @ CHR 0x22 # r1)
        = json_escape_char d @ (concat (map json_escape_char ds) @ CHR 0x22 # r2)"
      by simp
    then have cd: "c = d" by (rule json_escape_char_prefix_code)
    with e have "concat (map json_escape_char cs) @ CHR 0x22 # r1
        = concat (map json_escape_char ds) @ CHR 0x22 # r2" by simp
    then have "cs = ds" by (rule Cons.IH)
    with cd Cons show ?thesis by simp
  qed
qed

lemma json_quote_prefix_code: "json_quote a @ r1 = json_quote b @ r2 \<Longrightarrow> a = b"
  by (rule escaped_prefix_code [of a r1 b r2]) (simp add: json_quote_def)

lemma join_Cons: "join sep (u # us) = u @ (if us = [] then [] else sep @ join sep us)"
  by (cases us) simp_all

lemma is_array_index_inject:
  "is_array_index a \<Longrightarrow> is_array_index b \<Longrightarrow> decimal_value a = decimal_value b \<Longrightarrow> a = b"
  by (metis is_array_index_def)

lemma own_property_order_ordinary:
  "\<forall>(k, v)\<in>set fs. \<not> is_array_index k \<Longrightarrow> own_property_order fs = fs"
proof -
  assume o: "\<forall>(k, v)\<in>set fs. \<not> is_array_index k"
  then have "filter (\<lambda>(k, v). is_array_index k) fs = []"
    by (auto simp: filter_empty_conv)
  moreover from o have "filter (\<lambda>(k, v). \<not> is_array_index k) fs = fs"
    by (auto simp: filter_id_conv)
  ultimately show ?thesis
    by (simp add: own_property_order_def)
qed

lemma own_property_order_single: "own_property_order [(k, v)] = [(k, v)]"
  by (simp add: own_property_order_def)

lemma sorted_indices_unique:
  assumes "distinct (map fst ps)" and "distinct (map fst qs)" and "set ps = set qs"
  shows "sort_key (\<lambda>(k, v). decimal_value k) (filter (\<lambda>(k, v). is_array_index k) ps)
       = sort_key (\<lambda>(k, v). decimal_value k) (filter (\<lambda>(k, v). is_array_index k) qs)"
proof -
  let ?f = "\<lambda>(k, v). decimal_value k" and ?P = "\<lambda>(k :: string, v :: 'a). is_array_index k"
  let ?X = "sort_key ?f (filter ?P ps)" and ?Y = "sort_key ?f (filter ?P qs)"
  have sets: "set ?X = set ?Y"
    using assms(3) by simp
  have inj: "inj_on ?f (set ?X)"
  proof (rule inj_onI)
    fix p q assume p: "p \<in> set ?X" and q: "q \<in> set ?X" and e: "?f p = ?f q"
    obtain k v k' v' where pq: "p = (k, v)" "q = (k', v')"
      by (cases p, cases q) blast
    from p q pq have in_ps: "(k, v) \<in> set ps" "(k', v') \<in> set ps"
      and idx: "is_array_index k" "is_array_index k'"
      by auto
    from e pq have "decimal_value k = decimal_value k'" by simp
    with idx have "k = k'" by (rule is_array_index_inject)
    with in_ps assms(1) have "v = v'"
      by (auto dest: eq_key_imp_eq_value)
    with \<open>k = k'\<close> pq show "p = q" by simp
  qed
  have dX: "distinct ?X" "distinct ?Y"
    using assms(1,2) by (simp_all add: distinct_map)
  have "distinct (map ?f ?X)" "distinct (map ?f ?Y)"
    using dX inj sets by (simp_all add: distinct_map)
  moreover have "sorted (map ?f ?X)" "sorted (map ?f ?Y)"
    by simp_all
  moreover have "set (map ?f ?X) = set (map ?f ?Y)"
    using sets by (simp only: set_map)
  ultimately have "map ?f ?X = map ?f ?Y"
    by (intro sorted_distinct_set_unique)
  moreover have "inj_on ?f (set ?X \<union> set ?Y)"
    using inj sets by simp
  ultimately show ?thesis
    by (simp only: inj_on_map_eq_map)
qed

lemma own_property_order_same_fields:
  assumes "distinct (map fst ps)" and "distinct (map fst qs)" and "set ps = set qs"
      and "filter (\<lambda>(k, v). \<not> is_array_index k) ps = filter (\<lambda>(k, v). \<not> is_array_index k) qs"
  shows "own_property_order ps = own_property_order qs"
  unfolding own_property_order_def
  by (simp only: sorted_indices_unique [OF assms(1,2,3)] assms(4))

lemma keys_same_order:
  assumes "own_property_order ps = own_property_order qs"
  shows "generateKey pfx ps = generateKey pfx qs" and "getCacheKey pfx ps = getCacheKey pfx qs"
  using assms by (simp_all add: generateKey_def getCacheKey_def object_keys_def)

lemma two_indices_same_order:
  assumes "is_array_index a" and "is_array_index b" and "a \<noteq> b"
  shows "own_property_order [(a, x), (b, y)] = own_property_order [(b, y), (a, x)]"
proof (rule own_property_order_same_fields)
  show "distinct (map fst [(a, x), (b, y)])" "distinct (map fst [(b, y), (a, x)])"
    using assms(3) by auto
  show "set [(a, x), (b, y)] = set [(b, y), (a, x)]" by auto
  show "filter (\<lambda>(k, v). \<not> is_array_index k) [(a, x), (b, y)]
          = filter (\<lambda>(k, v). \<not> is_array_index k) [(b, y), (a, x)]"
    using assms(1,2) by simp
qed

lemma stringify_object_first:
  assumes "stringify x = Some sx" and "own_property_order ((a, x) # ps) = (a, x) # ps"
  shows "\<exists>R. template_text (stringify (JObj ((a, x) # ps))) = CHR ''{'' # json_quote a @ R"
  using assms by (simp add: template_text_def join_Cons)

lemma first_field_decides:
  assumes "a \<noteq> b" and "stringify x \<noteq> None" and "stringify y \<noteq> None"
      and "\<forall>(k, v)\<in>set ((a, x) # ps). \<not> is_array_index k"
      and "\<forall>(k, v)\<in>set ((b, y) # qs). \<not> is_array_index k"
  shows "template_text (stringify (JObj ((a, x) # ps)))
           \<noteq> template_text (stringify (JObj ((b, y) # qs)))"
proof
  assume eq: "template_text (stringify (JObj ((a, x) # ps)))
                = template_text (stringify (JObj ((b, y) # qs)))"
  obtain sx sy where s: "stringify x = Some sx" "stringify y = Some sy"
    using assms(2,3) by auto
  obtain R where R: "template_text (stringify (JObj ((a, x) # ps))) = CHR ''{'' # json_quote a @ R"
    using stringify_object_first [OF s(1) own_property_order_ordinary [OF assms(4)]] by blast
  obtain S where S: "template_text (stringify (JObj ((b, y) # qs))) = CHR ''{'' # json_quote b @ S"
    using stringify_object_first [OF s(2) own_property_order_ordinary [OF assms(5)]] by blast
  from eq R S have "json_quote a @ R = json_quote b @ S" by simp
  then have "a = b" by (rule json_quote_prefix_code)
  with assms(1) show False by contradiction
qed

lemma keys_first_field:
  assumes "a \<noteq> b" and "stringify x \<noteq> None" and "stringify y \<noteq> None"
      and "\<forall>(k, v)\<in>set ((a, x) # ps). \<not> is_array_index k"
      and "\<forall>(k, v)\<in>set ((b, y) # qs). \<not> is_array_index k"
  shows "generateKey pfx ((a, x) # ps) \<noteq> generateKey pfx ((b, y) # qs)"
    and "getCacheKey pfx ((a, x) # ps) \<noteq> getCacheKey pfx ((b, y) # qs)"
  using first_field_decides [OF assms]
  by (simp_all add: generateKey_def getCacheKey_def object_keys_def
        own_property_order_ordinary [OF assms(4)] own_property_order_ordinary [OF assms(5)])

lemma keys_single_field:
  assumes "stringify v = Some t"
  shows "generateKey pfx [(k, v)] = pfx @ ''_{'' @ json_quote k @ '':'' @ t @ ''}''"
    and "getCacheKey pfx [(k, v)] = pfx @ ''_{'' @ json_quote k @ '':'' @ t @ ''}''"
  using assms
  by (simp_all add: generateKey_def getCacheKey_def object_keys_def own_property_order_single
        template_text_def)

text \<open>
  C6, as the code has it. The key is the prefix, an underscore, and the JSON text of the
  parameter object (nothing after the underscore when \<^verbatim>\<open>generateKey\<close> gets an object
  without fields), and JSON writes the fields in the object's own order of properties:
  the names that are array indices first, ascending, then the other names in the order
  they were created. So an object of one field \<open>k: v\<close> gets the key
  \<^verbatim>\<open>prefix_{"k":v}\<close>; two objects with the same fields get the same key when their fields
  with ordinary names were created in the same order, in particular when all the names
  are array indices; but for ordinary names the order of creation shows: two objects of
  ordinary names whose first fields have different names, each with a value that JSON
  can write, get different keys, and so does an object of two such fields after its
  fields are swapped.
\<close>

theorem C6_key_follows_field_order:
  "generateKey pfx [] = pfx @ ''_''
   \<and> getCacheKey pfx [] = pfx @ ''_{}''
   \<and> (stringify v = Some t \<longrightarrow>
        generateKey pfx [(k, v)] = pfx @ ''_{'' @ json_quote k @ '':'' @ t @ ''}''
      \<and> getCacheKey pfx [(k, v)] = pfx @ ''_{'' @ json_quote k @ '':'' @ t @ ''}'')
   \<and> (distinct (map fst ps) \<and> distinct (map fst qs) \<and> set ps = set qs
        \<and> filter (\<lambda>(k, v). \<not> is_array_index k) ps = filter (\<lambda>(k, v). \<not> is_array_index k) qs \<longrightarrow>
        generateKey pfx ps = generateKey pfx qs \<and> getCacheKey pfx ps = getCacheKey pfx qs)
   \<and> (is_array_index a \<and> is_array_index b \<and> a \<noteq> b \<longrightarrow>
        generateKey pfx [(a, u), (b, w)] = generateKey pfx [(b, w), (a, u)]
      \<and> getCacheKey pfx [(a, u), (b, w)] = getCacheKey pfx [(b, w), (a, u)])
   \<and> (c \<noteq> d \<and> \<not> is_array_index c \<and> \<not> is_array_index d
        \<and> stringify x \<noteq> None \<and> stringify y \<noteq> None \<longrightarrow>
        generateKey pfx [(c, x), (d, y)] \<noteq> generateKey pfx [(d, y), (c, x)]
      \<and> getCacheKey pfx [(c, x), (d, y)] \<noteq> getCacheKey pfx [(d, y), (c, x)])
   \<and> (c \<noteq> d \<and> stringify x \<noteq> None \<and> stringify y \<noteq> None
        \<and> (\<forall>(k, v)\<in>set ((c, x) # ps'). \<not> is_array_index k)
        \<and> (\<forall>(k, v)\<in>set ((d, y) # qs'). \<not> is_array_index k) \<longrightarrow>
        generateKey pfx ((c, x) # ps') \<noteq> generateKey pfx ((d, y) # qs')
      \<and> getCacheKey pfx ((c, x) # ps') \<noteq> getCacheKey pfx ((d, y) # qs'))"
proof (intro conjI impI; (elim conjE)?)
  show "generateKey pfx [] = pfx @ ''_''"
    by (simp add: generateKey_def object_keys_def own_property_order_def)
  show "getCacheKey pfx [] = pfx @ ''_{}''"
    by (simp add: getCacheKey_def own_property_order_def template_text_def)
next
  assume "stringify v = Some t"
  then show "generateKey pfx [(k, v)] = pfx @ ''_{'' @ json_quote k @ '':'' @ t @ ''}''"
    and "getCacheKey pfx [(k, v)] = pfx @ ''_{'' @ json_quote k @ '':'' @ t @ ''}''"
    by (rule keys_single_field)+
next
  assume "distinct (map fst ps)" "distinct (map fst qs)" "set ps = set qs"
    "filter (\<lambda>(k, v). \<not> is_array_index k) ps = filter (\<lambda>(k, v). \<not> is_array_index k) qs"
  then have "own_property_order ps = own_property_order qs"
    by (rule own_property_order_same_fields)
  then show "generateKey pfx ps = generateKey pfx qs" "getCacheKey pfx ps = getCacheKey pfx qs"
    by (rule keys_same_order)+
next
  assume "is_array_index a" "is_array_index b" "a \<noteq> b"
  then have "own_property_order [(a, u), (b, w)] = own_property_order [(b, w), (a, u)]"
    by (rule two_indices_same_order)
  then show "generateKey pfx [(a, u), (b, w)] = generateKey pfx [(b, w), (a, u)]"
    "getCacheKey pfx [(a, u), (b, w)] = getCacheKey pfx [(b, w), (a, u)]"
    by (rule keys_same_order)+
next
  assume h: "c \<noteq> d" "\<not> is_array_index c" "\<not> is_array_index d"
    "stringify x \<noteq> None" "stringify y \<noteq> None"
  have o: "\<forall>(k, v)\<in>set ((c, x) # [(d, y)]). \<not> is_array_index k"
          "\<forall>(k, v)\<in>set ((d, y) # [(c, x)]). \<not> is_array_index k"
    using h(2,3) by simp_all
  show "generateKey pfx [(c, x), (d, y)] \<noteq> generateKey pfx [(d, y), (c, x)]"
    by (rule keys_first_field(1) [OF h(1,4,5) o])
  show "getCacheKey pfx [(c, x), (d, y)] \<noteq> getCacheKey pfx [(d, y), (c, x)]"
    by (rule keys_first_field(2) [OF h(1,4,5) o])
next
  assume h: "c \<noteq> d" "stringify x \<noteq> None" "stringify y \<noteq> None"
    "\<forall>(k, v)\<in>set ((c, x) # ps'). \<not> is_array_index k"
    "\<forall>(k, v)\<in>set ((d, y) # qs'). \<not> is_array_index k"
  show "generateKey pfx ((c, x) # ps') \<noteq> generateKey pfx ((d, y) # qs')"
    by (rule keys_first_field(1) [OF h])
  show "getCacheKey pfx ((c, x) # ps') \<noteq> getCacheKey pfx ((d, y) # qs')"
    by (rule keys_first_field(2) [OF h])
qed

text \<open>
  Two queries with ordinary names, written in either order, and two with array indices
  as names.
\<close>

definition by_category :: "(string \<times> jsval) list" where
  "by_category = [(''category'', JStr ''buffet''), (''active'', JBool True)]"

definition by_active :: "(string \<times> jsval) list" where
  "by_active = [(''active'', JBool True), (''category'', JStr ''buffet'')]"

lemma ordinary_category: "\<not> is_array_index ''category''" "\<not> is_array_index ''active''"
  by (simp_all add: is_array_index_def is_digit_def)

lemma index_names: "is_array_index ''1''" "is_array_index ''2''"
  by (simp_all add: is_array_index_def is_digit_def decimal_value_def number_toString_def
        nat_decimal.simps)

theorem C6_key_follows_field_order_witness:
  "generateKey ''services'' [] = ''services_''
   \<and> generateKey ''services'' [(''category'', JNull)]
       = ''services_{'' @ json_quote ''category'' @ '':null}''
   \<and> generateKey ''services'' by_category \<noteq> generateKey ''services'' by_active
   \<and> getCacheKey ''services'' by_category \<noteq> getCacheKey ''services'' by_active
   \<and> generateKey ''services'' [(''2'', JNum 5), (''1'', JNum 6)]
       = generateKey ''services'' [(''1'', JNum 6), (''2'', JNum 5)]
   \<and> getCacheKey ''services'' [(''2'', JNum 5), (''1'', JNum 6)]
       = getCacheKey ''services'' [(''1'', JNum 6), (''2'', JNum 5)]"
proof -
  note T = C6_key_follows_field_order [where pfx = "''services''" and v = JNull and t = "''null''"
          and k = "''category''" and ps = "[(''2'', JNum 5), (''1'', JNum 6)]"
          and qs = "[(''1'', JNum 6), (''2'', JNum 5)]"
          and a = "''2''" and b = "''1''" and u = "JNum 5" and w = "JNum 6" and c = "''category''" and d = "''active''"
          and x = "JStr ''buffet''" and y = "JBool True"
          and ps' = "[(''active'', JBool True)]" and qs' = "[(''category'', JStr ''buffet'')]"]
  have h3: "stringify JNull = Some ''null''" by simp
  have h4: "distinct (map fst [(''2'', JNum 5), (''1'', JNum 6)])
            \<and> distinct (map fst [(''1'', JNum 6), (''2'', JNum 5)])
            \<and> set [(''2'', JNum 5), (''1'', JNum 6)] = set [(''1'', JNum 6), (''2'', JNum 5)]
            \<and> filter (\<lambda>(k, v). \<not> is_array_index k) [(''2'', JNum 5), (''1'', JNum 6)]
                = filter (\<lambda>(k, v). \<not> is_array_index k) [(''1'', JNum 6), (''2'', JNum 5)]"
    by (auto simp: index_names)
  have h5: "is_array_index ''2'' \<and> is_array_index ''1'' \<and> ''2'' \<noteq> ''1''"
    by (simp add: index_names)
  have h6: "''category'' \<noteq> ''active'' \<and> \<not> is_array_index ''category''
            \<and> \<not> is_array_index ''active''
            \<and> stringify (JStr ''buffet'') \<noteq> None \<and> stringify (JBool True) \<noteq> None"
    by (simp add: ordinary_category)
  have h7: "''category'' \<noteq> ''active''
            \<and> stringify (JStr ''buffet'') \<noteq> None \<and> stringify (JBool True) \<noteq> None
            \<and> (\<forall>(k, v)\<in>set ((''category'', JStr ''buffet'') # [(''active'', JBool True)]).
                  \<not> is_array_index k)
            \<and> (\<forall>(k, v)\<in>set ((''active'', JBool True) # [(''category'', JStr ''buffet'')]).
                  \<not> is_array_index k)"
    by (simp add: ordinary_category)
  note t1 = T [THEN conjunct1]
  note t3 = T [THEN conjunct2, THEN conjunct2, THEN conjunct1, THEN mp, OF h3]
  note t4 = T [THEN conjunct2, THEN conjunct2, THEN conjunct2, THEN conjunct1, THEN mp, OF h4]
  note t5 = T [THEN conjunct2, THEN conjunct2, THEN conjunct2, THEN conjunct2, THEN conjunct1,
               THEN mp, OF h5]
  note t6 = T [THEN conjunct2, THEN conjunct2, THEN conjunct2, THEN conjunct2, THEN conjunct2,
               THEN conjunct1, THEN mp, OF h6]
  note t7 = T [THEN conjunct2, THEN conjunct2, THEN conjunct2, THEN conjunct2, THEN conjunct2,
               THEN conjunct2, THEN mp, OF h7]
  have "generateKey ''services'' by_category \<noteq> generateKey ''services'' by_active"
    unfolding by_category_def by_active_def by (rule t6 [THEN conjunct1])
  moreover have "getCacheKey ''services'' by_category \<noteq> getCacheKey ''services'' by_active"
    unfolding by_category_def by_active_def by (rule t7 [THEN conjunct2])
  moreover have "generateKey ''services'' [(''category'', JNull)]
       = ''services_{'' @ json_quote ''category'' @ '':null}''"
    using t3 [THEN conjunct1] by simp
  moreover have "generateKey ''services'' [] = ''services_''"
    using t1 by simp
  ultimately show ?thesis
    using t4 [THEN conjunct1] t5 [THEN conjunct2] by blast
qed

text \<open>
  The claim as the specification words it makes the key the same for the same fields in
  any order. These two objects hold the same two fields and get different keys.
\<close>

theorem C6_reordering_counterexample:
  "set by_category = set by_active
   \<and> map_of by_category = map_of by_active
   \<and> generateKey ''services'' by_category \<noteq> generateKey ''services'' by_active"
proof -
  have "generateKey ''services'' by_category \<noteq> generateKey ''services'' by_active"
    unfolding by_category_def by_active_def
    by (rule keys_first_field(1)) (simp_all add: ordinary_category)
  moreover have "set by_category = set by_active"
    by (auto simp: by_category_def by_active_def)
  moreover have "map_of by_category = map_of by_active"
    by (auto simp: by_category_def by_active_def fun_eq_iff)
  ultimately show ?thesis by blast
qed

section \<open>ServicesManager\<close>

text \<open>
  The state of the services manager. \<^verbatim>\<open>this.services\<close> is normally an array of service
  records, but a cache hit assigns whatever the cache held, so it is a value.
\<close>

record services_manager =
  services :: jsval
  isLoading :: bool
  lastLoadTime :: "int option"
  fallbackServices :: "jsval list"

text \<open>\<^verbatim>\<open>getFallbackServices()\<close>: the four built-in records.\<close>

definition fallback_record :: "string \<Rightarrow> string \<Rightarrow> string \<Rightarrow> int \<Rightarrow> string \<Rightarrow> jsval" where
  "fallback_record i n d p c =
     JObj [(''id'', JStr i), (''name'', JStr n), (''description'', JStr d),
           (''price_per_person'', JNum p), (''category'', JStr c), (''active'', JBool True)]"

definition getFallbackServices :: "jsval list" where
  "getFallbackServices =
     [fallback_record ''fallback-1'' ''Buffet Completo''
        ''Salgados, doces, bebidas e servico completo'' 45 ''buffet'',
      fallback_record ''fallback-2'' ''Bolo Personalizado''
        ''Bolos tematicos e personalizados para sua festa'' 120 ''doces'',
      fallback_record ''fallback-3'' ''Decoracao Tematica''
        ''Decoracao completa para todos os tipos de festa'' 200 ''decoracao'',
      fallback_record ''fallback-4'' ''Coffee Break Corporativo''
        ''Cafe, salgados, doces e sucos para eventos empresariais'' 25 ''corporativo'']"

definition new_ServicesManager :: services_manager where
  "new_ServicesManager =
     \<lparr> services = JArr [], isLoading = False, lastLoadTime = None,
       fallbackServices = getFallbackServices \<rparr>"

text \<open>
  What \<^verbatim>\<open>loadFromSupabase\<close> resolves to: \<^verbatim>\<open>{ success: true, data }\<close> or
  \<^verbatim>\<open>{ success: false, error }\<close>.
\<close>

datatype load_result = LoadOk "jsval list" | LoadFailed string

text \<open>\<^verbatim>\<open>new Error(m).message\<close>: the text of \<open>m\<close>, empty when \<open>m\<close> is \<^verbatim>\<open>undefined\<close>.\<close>

definition error_message_of :: "jsval \<Rightarrow> string" where
  "error_message_of m = (if m = JUndefined then [] else js_toString m)"

text \<open>
  \<^verbatim>\<open>for (const service of result.data || [])\<close>: the elements of an array, the characters
  of a non-empty string, nothing for a falsy value, and a \<^verbatim>\<open>TypeError\<close> for any other value,
  which cannot be iterated.
\<close>

definition iterate_data :: "jsval \<Rightarrow> js_error + jsval list" where
  "iterate_data d =
     (if \<not> truthy d then Inr []
      else (case d of
              JArr xs \<Rightarrow> Inr xs
            | JStr s \<Rightarrow> Inr (map (\<lambda>c. JStr [c]) s)
            | _ \<Rightarrow> Inl (TypeError ''result.data is not iterable'')))"

text \<open>
  What evaluating \<^verbatim>\<open>DataModels.validateService(service)\<close> comes to: a throw, or the
  fields \<^verbatim>\<open>valid\<close> and \<^verbatim>\<open>sanitized\<close> of the object returned.
\<close>

type_synonym validator = "jsval \<Rightarrow> js_error + bool \<times> jsval"

text \<open>
  In this repository the call always throws. \<^verbatim>\<open>data-models.js\<close> declares
  \<^verbatim>\<open>static validatePackage(package)\<close> and \<^verbatim>\<open>static sanitizePackage(package)\<close> inside
  \<^verbatim>\<open>class DataModels\<close>; a class body is strict code, in which \<^verbatim>\<open>package\<close> is a
  reserved word, so the script is refused with a \<^verbatim>\<open>SyntaxError\<close> before any of it runs.
  No other script declares \<^verbatim>\<open>DataModels\<close>, and evaluating the name throws a
  \<^verbatim>\<open>ReferenceError\<close>, whatever the record.
\<close>

definition DataModels_validateService :: validator where
  "DataModels_validateService service = Inl (ReferenceError ''DataModels is not defined'')"

text \<open>
  The loop over the records received: each one is validated, the sanitised form of a
  valid one is pushed onto \<^verbatim>\<open>validServices\<close>, an invalid one is skipped with a warning,
  and a throw of the validator leaves the loop.
\<close>

fun validate_records :: "validator \<Rightarrow> jsval list \<Rightarrow> jsval list \<Rightarrow> js_error + jsval list" where
  "validate_records validateService [] validServices = Inr validServices"
| "validate_records validateService (service # others) validServices =
     (case validateService service of
        Inl e \<Rightarrow> Inl e
      | Inr (valid, sanitized) \<Rightarrow>
          validate_records validateService others
            (if valid then validServices @ [sanitized] else validServices))"

text \<open>
  \<^verbatim>\<open>loadFromSupabase\<close>. The environment gives \<open>client\<close>: \<open>None\<close> when
  \<^verbatim>\<open>window.supabaseClient\<close> is missing, otherwise what
  \<^verbatim>\<open>await supabaseClient.getServices(category, false)\<close> settles with. Everything thrown
  inside the \<^verbatim>\<open>try\<close> block, by the validator too, is caught and becomes
  \<^verbatim>\<open>{ success: false, error: error.message }\<close>.
\<close>

definition loadFromSupabase :: "(js_error + jsval) option \<Rightarrow> validator \<Rightarrow> load_result" where
  "loadFromSupabase client validateService =
     (case client of
        None \<Rightarrow> LoadFailed ''Cliente Supabase nao disponivel''
      | Some (Inl e) \<Rightarrow> LoadFailed (message e)
      | Some (Inr result) \<Rightarrow>
          (case js_prop result ''error'' of
             Inl e \<Rightarrow> LoadFailed (message e)
           | Inr err \<Rightarrow>
               if truthy err
               then (case js_prop err ''message'' of
                       Inl e \<Rightarrow> LoadFailed (message e)
                     | Inr m \<Rightarrow> LoadFailed (error_message_of m))
               else (case js_prop result ''data'' of
                       Inl e \<Rightarrow> LoadFailed (message e)
                     | Inr d \<Rightarrow>
                         (case iterate_data d of
                            Inl e \<Rightarrow> LoadFailed (message e)
                          | Inr xs \<Rightarrow>
                              (case validate_records validateService xs [] of
                                 Inl e \<Rightarrow> LoadFailed (message e)
                               | Inr validServices \<Rightarrow> LoadOk validServices)))))"

text \<open>
  What a call of \<^verbatim>\<open>loadServices\<close> comes to: the value returned, the manager and the cache
  it leaves, and how often it called \<^verbatim>\<open>showOfflineMessage\<close>. Rendering and the loading
  indicator only touch the page and are left out; rendering is taken not to throw.
\<close>

record load_outcome =
  result :: jsval
  manager_after :: services_manager
  cm_after :: cache_manager
  offline_messages :: nat

text \<open>The default \<^verbatim>\<open>category = null\<close> replaces an argument that is \<^verbatim>\<open>undefined\<close>.\<close>

definition services_key :: "jsval \<Rightarrow> string" where
  "services_key category =
     generateKey ''services'' [(''category'', if category = JUndefined then JNull else category)]"

definition loadServices ::
  "services_manager \<Rightarrow> cache_manager \<Rightarrow> int \<Rightarrow> int \<Rightarrow> jsval \<Rightarrow> bool
     \<Rightarrow> (js_error + jsval) option \<Rightarrow> validator \<Rightarrow> load_outcome" where
  "loadServices sm cm now later category useCache client validateService =
     (let (cached, cm1) = (if useCache then cm_get cm now (services_key category) else (JNull, cm))
      in if useCache \<and> truthy cached
         then \<lparr> result = cached, manager_after = sm \<lparr> services := cached \<rparr>, cm_after = cm1,
                offline_messages = 0 \<rparr>
         else if isLoading sm
         then \<lparr> result = services sm, manager_after = sm, cm_after = cm1, offline_messages = 0 \<rparr>
         else (case loadFromSupabase client validateService of
                 LoadOk loaded \<Rightarrow>
                   if length loaded > 0
                   then \<lparr> result = JArr loaded,
                          manager_after = sm \<lparr> services := JArr loaded, lastLoadTime := Some later,
                                               isLoading := False \<rparr>,
                          cm_after = cm_set cm1 later (services_key category) (JArr loaded) None,
                          offline_messages = 0 \<rparr>
                   else \<lparr> result = JArr (fallbackServices sm),
                          manager_after = sm \<lparr> services := JArr (fallbackServices sm),
                                               isLoading := False \<rparr>,
                          cm_after = cm1, offline_messages = 1 \<rparr>
               | LoadFailed err \<Rightarrow>
                   \<lparr> result = JArr (fallbackServices sm),
                     manager_after = sm \<lparr> services := JArr (fallbackServices sm),
                                          isLoading := False \<rparr>,
                     cm_after = cm1, offline_messages = 1 \<rparr>))"

section \<open>Fallback records of the services manager\<close>

lemma loadServices_remote:
  assumes "\<not> (useCache \<and> truthy (fst (cm_get cm now (services_key category))))"
      and "\<not> isLoading sm"
  shows "loadServices sm cm now later category useCache client validateService =
     (let cm1 = (if useCache then snd (cm_get cm now (services_key category)) else cm)
      in case loadFromSupabase client validateService of
           LoadOk loaded \<Rightarrow>
             if loaded \<noteq> []
             then \<lparr> result = JArr loaded,
                    manager_after = sm \<lparr> services := JArr loaded, lastLoadTime := Some later,
                                         isLoading := False \<rparr>,
                    cm_after = cm_set cm1 later (services_key category) (JArr loaded) None,
                    offline_messages = 0 \<rparr>
             else \<lparr> result = JArr (fallbackServices sm),
                    manager_after = sm \<lparr> services := JArr (fallbackServices sm),
                                         isLoading := False \<rparr>,
                    cm_after = cm1, offline_messages = 1 \<rparr>
         | LoadFailed err \<Rightarrow>
             \<lparr> result = JArr (fallbackServices sm),
               manager_after = sm \<lparr> services := JArr (fallbackServices sm), isLoading := False \<rparr>,
               cm_after = cm1, offline_messages = 1 \<rparr>)"
  using assms
  by (cases useCache) (simp_all add: loadServices_def split_beta Let_def split: load_result.splits)

text \<open>A remote answer without an embedded error that holds the array \<open>xs\<close> of records.\<close>

definition answers_with :: "(js_error + jsval) option \<Rightarrow> jsval list \<Rightarrow> bool" where
  "answers_with client xs =
     (case client of
        Some (Inr res) \<Rightarrow>
          (case js_prop res ''error'' of
             Inr err \<Rightarrow> \<not> truthy err \<and> js_prop res ''data'' = Inr (JArr xs)
           | Inl e \<Rightarrow> False)
      | _ \<Rightarrow> False)"

lemma loadFromSupabase_answer:
  "answers_with client xs \<Longrightarrow>
     loadFromSupabase client validateService =
       (case validate_records validateService xs [] of
          Inl e \<Rightarrow> LoadFailed (message e)
        | Inr validServices \<Rightarrow> LoadOk validServices)"
  by (auto simp: answers_with_def loadFromSupabase_def iterate_data_def
        split: option.splits sum.splits)

lemma validate_records_throws:
  "\<forall>y\<in>set pre. \<exists>r. validateService y = Inr r \<Longrightarrow> validateService x = Inl e \<Longrightarrow>
     validate_records validateService (pre @ x # post) acc = Inl e"
proof (induction pre arbitrary: acc)
  case Nil
  then show ?case by simp
next
  case (Cons y pre)
  then obtain valid sanitized where "validateService y = Inr (valid, sanitized)"
    by fastforce
  with Cons show ?case by simp
qed

lemma validate_records_total:
  "\<forall>y\<in>set xs. \<exists>r. validateService y = Inr r \<Longrightarrow>
     validate_records validateService xs acc =
       Inr (acc @ map (\<lambda>y. snd (projr (validateService y)))
                    (filter (\<lambda>y. fst (projr (validateService y))) xs))"
proof (induction xs arbitrary: acc)
  case Nil
  then show ?case by simp
next
  case (Cons y xs)
  then obtain valid sanitized where "validateService y = Inr (valid, sanitized)"
    by fastforce
  with Cons show ?case by simp
qed

lemma validate_records_unbound:
  "validate_records DataModels_validateService xs [] = (if xs = [] then Inr [] else
     Inl (ReferenceError ''DataModels is not defined''))"
  by (cases xs) (simp_all add: DataModels_validateService_def)

lemma loadFromSupabase_unbound:
  "loadFromSupabase client DataModels_validateService = LoadOk loaded \<Longrightarrow> loaded = []"
  by (auto simp: loadFromSupabase_def validate_records_unbound
        split: option.splits sum.splits if_splits)

text \<open>
  C10. Take a call of \<^verbatim>\<open>loadServices\<close> that reaches the remote load: the cache was not
  asked or held nothing usable, and no load was under way. What the call returns is
  decided by what \<^verbatim>\<open>loadFromSupabase\<close> resolves to: the validated list when the load
  succeeded and that list is not empty, with no offline notice; in every other case, a
  failed load as well as a load that succeeds with no valid record, the fallback services,
  with the offline notice shown once.

  The load fails when there is no client, when \<^verbatim>\<open>getServices\<close> throws, when the answer
  carries an embedded error, and when the validator throws on a record. For an answer
  without an embedded error it succeeds when the validator throws on no record, with
  the sanitised forms of the records it accepts.

  In the repository as it is, the validator throws on every record
  (\<^verbatim>\<open>DataModels\<close> is not defined): an answer with at least one record is a failed load, an
  answer with no record is a load that succeeds with no valid record, and every call that
  reaches the remote load returns the fallback services and shows the offline notice.
\<close>

theorem C10_fallback_on_empty:
  assumes "\<not> (useCache \<and> truthy (fst (cm_get cm now (services_key category))))"
      and "\<not> isLoading sm"
  shows
   "result (loadServices sm cm now later category useCache client validateService)
      = (case loadFromSupabase client validateService of
           LoadOk loaded \<Rightarrow> if loaded \<noteq> [] then JArr loaded else JArr (fallbackServices sm)
         | LoadFailed err \<Rightarrow> JArr (fallbackServices sm))
    \<and> services (manager_after (loadServices sm cm now later category useCache client validateService))
      = result (loadServices sm cm now later category useCache client validateService)
    \<and> offline_messages (loadServices sm cm now later category useCache client validateService)
      = (case loadFromSupabase client validateService of
           LoadOk loaded \<Rightarrow> if loaded \<noteq> [] then 0 else 1
         | LoadFailed err \<Rightarrow> 1)
    \<and> loadFromSupabase None validateService = LoadFailed ''Cliente Supabase nao disponivel''
    \<and> loadFromSupabase (Some (Inl e)) validateService = LoadFailed (message e)
    \<and> (js_prop res ''error'' = Inr err \<and> truthy err \<and> js_prop err ''message'' = Inr m \<longrightarrow>
         loadFromSupabase (Some (Inr res)) validateService = LoadFailed (error_message_of m))
    \<and> (answers_with client (pre @ x # post) \<and> (\<forall>y\<in>set pre. \<exists>r. validateService y = Inr r)
         \<and> validateService x = Inl e' \<longrightarrow>
         loadFromSupabase client validateService = LoadFailed (message e'))
    \<and> (answers_with client xs \<and> (\<forall>y\<in>set xs. \<exists>r. validateService y = Inr r) \<longrightarrow>
         loadFromSupabase client validateService
           = LoadOk (map (\<lambda>y. snd (projr (validateService y)))
                       (filter (\<lambda>y. fst (projr (validateService y))) xs)))
    \<and> (answers_with client xs \<longrightarrow>
         loadFromSupabase client DataModels_validateService
           = (if xs = [] then LoadOk [] else LoadFailed ''DataModels is not defined''))
    \<and> result (loadServices sm cm now later category useCache client DataModels_validateService)
        = JArr (fallbackServices sm)
    \<and> offline_messages (loadServices sm cm now later category useCache client
                           DataModels_validateService) = 1"
proof -
  note run = loadServices_remote [OF assms]
  have r1: "result (loadServices sm cm now later category useCache client validateService)
      = (case loadFromSupabase client validateService of
           LoadOk loaded \<Rightarrow> if loaded \<noteq> [] then JArr loaded else JArr (fallbackServices sm)
         | LoadFailed err \<Rightarrow> JArr (fallbackServices sm))"
    by (simp add: run Let_def split: load_result.splits)
  have r2: "services (manager_after (loadServices sm cm now later category useCache client validateService))
      = result (loadServices sm cm now later category useCache client validateService)"
    by (simp add: run Let_def split: load_result.splits)
  have r3: "offline_messages (loadServices sm cm now later category useCache client validateService)
      = (case loadFromSupabase client validateService of
           LoadOk loaded \<Rightarrow> if loaded \<noteq> [] then 0 else 1
         | LoadFailed err \<Rightarrow> 1)"
    by (simp add: run Let_def split: load_result.splits)
  have f1: "loadFromSupabase None validateService = LoadFailed ''Cliente Supabase nao disponivel''"
    by (simp add: loadFromSupabase_def)
  have f2: "loadFromSupabase (Some (Inl e)) validateService = LoadFailed (message e)"
    by (simp add: loadFromSupabase_def)
  have f3: "loadFromSupabase (Some (Inr res)) validateService = LoadFailed (error_message_of m)"
    if "js_prop res ''error'' = Inr err \<and> truthy err \<and> js_prop err ''message'' = Inr m"
    using that by (simp add: loadFromSupabase_def)
  have f4: "loadFromSupabase client validateService = LoadFailed (message e')"
    if "answers_with client (pre @ x # post) \<and> (\<forall>y\<in>set pre. \<exists>r. validateService y = Inr r)
         \<and> validateService x = Inl e'"
  proof -
    from that have a: "answers_with client (pre @ x # post)"
      and t: "\<forall>y\<in>set pre. \<exists>r. validateService y = Inr r" and x: "validateService x = Inl e'"
      by blast+
    show ?thesis
      by (simp add: loadFromSupabase_answer [OF a] validate_records_throws [OF t x])
  qed
  have f5: "loadFromSupabase client validateService
           = LoadOk (map (\<lambda>y. snd (projr (validateService y)))
                       (filter (\<lambda>y. fst (projr (validateService y))) xs))"
    if "answers_with client xs \<and> (\<forall>y\<in>set xs. \<exists>r. validateService y = Inr r)"
  proof -
    from that have a: "answers_with client xs"
      and t: "\<forall>y\<in>set xs. \<exists>r. validateService y = Inr r"
      by blast+
    show ?thesis
      by (simp add: loadFromSupabase_answer [OF a] validate_records_total [OF t])
  qed
  have u1: "loadFromSupabase client DataModels_validateService
           = (if xs = [] then LoadOk [] else LoadFailed ''DataModels is not defined'')"
    if "answers_with client xs"
    using that by (simp add: loadFromSupabase_answer validate_records_unbound)
  have u2: "result (loadServices sm cm now later category useCache client DataModels_validateService)
        = JArr (fallbackServices sm)"
    using loadFromSupabase_unbound [of client]
    by (simp add: run Let_def split: load_result.splits)
  have u3: "offline_messages (loadServices sm cm now later category useCache client
                           DataModels_validateService) = 1"
    using loadFromSupabase_unbound [of client]
    by (simp add: run Let_def split: load_result.splits)
  show ?thesis
    using r1 r2 r3 f1 f2 f3 f4 f5 u1 u2 u3 by blast
qed

text \<open>
  Two remote answers, one with a well-formed record and one with no record, and a client
  that is missing.
\<close>

definition good_service :: jsval where
  "good_service = JObj [(''name'', JStr ''Buffet''), (''price_per_person'', JNum 45)]"

definition answer_good :: "(js_error + jsval) option" where
  "answer_good = Some (Inr (JObj [(''data'', JArr [good_service, JNull]), (''error'', JNull)]))"

definition answer_empty :: "(js_error + jsval) option" where
  "answer_empty = Some (Inr (JObj [(''data'', JArr []), (''error'', JNull)]))"

theorem C10_fallback_on_empty_witness:
  "loadFromSupabase answer_good DataModels_validateService
     = LoadFailed ''DataModels is not defined''
   \<and> result (loadServices new_ServicesManager new_CacheManager 5 9 JNull True answer_good
               DataModels_validateService)
     = JArr getFallbackServices
   \<and> offline_messages (loadServices new_ServicesManager new_CacheManager 5 9 JNull True answer_good
                         DataModels_validateService)
     = 1
   \<and> loadFromSupabase answer_empty DataModels_validateService = LoadOk []
   \<and> result (loadServices new_ServicesManager new_CacheManager 5 9 JNull True answer_empty
               DataModels_validateService)
     = JArr getFallbackServices
   \<and> offline_messages (loadServices new_ServicesManager new_CacheManager 5 9 JNull True answer_empty
                         DataModels_validateService)
     = 1
   \<and> result (loadServices new_ServicesManager new_CacheManager 5 9 JNull True None
               DataModels_validateService)
     = JArr getFallbackServices
   \<and> loadFromSupabase (Some (Inr denied)) DataModels_validateService = LoadFailed ''denied''
   \<and> result (loadServices new_ServicesManager new_CacheManager 5 9 JNull True (Some (Inr denied))
               DataModels_validateService)
     = JArr getFallbackServices"
proof -
  have miss: "\<not> (True \<and> truthy (fst (cm_get new_CacheManager 5 (services_key JNull))))"
    by (simp add: cm_get_def new_CacheManager_def)
  have idle: "\<not> isLoading new_ServicesManager"
    by (simp add: new_ServicesManager_def)
  have fb: "fallbackServices new_ServicesManager = getFallbackServices"
    by (simp add: new_ServicesManager_def)
  have good: "answers_with answer_good ([] @ good_service # [JNull])
              \<and> (\<forall>y\<in>set []. \<exists>r. DataModels_validateService y = Inr r)
              \<and> DataModels_validateService good_service
                  = Inl (ReferenceError ''DataModels is not defined'')"
    by (simp add: answers_with_def answer_good_def DataModels_validateService_def)
  have empty: "answers_with answer_empty []
               \<and> (\<forall>y\<in>set []. \<exists>r. DataModels_validateService y = Inr r)"
    by (simp add: answers_with_def answer_empty_def)
  note G = C10_fallback_on_empty [OF miss idle, where client = answer_good
             and validateService = DataModels_validateService and later = 9 and pre = "[]"
             and x = good_service and post = "[JNull]"
             and e' = "ReferenceError ''DataModels is not defined''"]
  note E = C10_fallback_on_empty [OF miss idle, where client = answer_empty
             and validateService = DataModels_validateService and later = 9 and xs = "[]"]
  note N = C10_fallback_on_empty [OF miss idle, where client = None
             and validateService = DataModels_validateService and later = 9]
  have den: "js_prop denied ''error'' = Inr (JObj [(''message'', JStr ''denied'')])
             \<and> truthy (JObj [(''message'', JStr ''denied'')])
             \<and> js_prop (JObj [(''message'', JStr ''denied'')]) ''message'' = Inr (JStr ''denied'')"
    by (simp add: denied_def)
  note D = C10_fallback_on_empty [OF miss idle, where client = "Some (Inr denied)"
             and validateService = DataModels_validateService and later = 9 and res = denied
             and err = "JObj [(''message'', JStr ''denied'')]" and m = "JStr ''denied''"]
  note d6 = D [THEN conjunct2, THEN conjunct2, THEN conjunct2, THEN conjunct2, THEN conjunct2,
               THEN conjunct1, THEN mp, OF den]
  note d1 = D [THEN conjunct1]
  have good9: "answers_with answer_good [good_service, JNull]"
    using good by simp
  note g9 = G [where xs = "[good_service, JNull]", THEN conjunct2, THEN conjunct2, THEN conjunct2,
               THEN conjunct2, THEN conjunct2, THEN conjunct2, THEN conjunct2, THEN conjunct2,
               THEN conjunct1, THEN mp, OF good9]
  note n1 = N [THEN conjunct1]
  note n4 = N [THEN conjunct2, THEN conjunct2, THEN conjunct2, THEN conjunct1]
  note g7 = G [THEN conjunct2, THEN conjunct2, THEN conjunct2, THEN conjunct2, THEN conjunct2,
               THEN conjunct2, THEN conjunct1, THEN mp, OF good]
  note g1 = G [THEN conjunct1]
  note g3 = G [THEN conjunct2, THEN conjunct2, THEN conjunct1]
  note e8 = E [THEN conjunct2, THEN conjunct2, THEN conjunct2, THEN conjunct2, THEN conjunct2,
               THEN conjunct2, THEN conjunct2, THEN conjunct1, THEN mp, OF empty]
  note e1 = E [THEN conjunct1]
  note e3 = E [THEN conjunct2, THEN conjunct2, THEN conjunct1]
  show ?thesis
    using g7 g9 g1 g3 e8 e1 e3 n1 n4 d6 d1
    by (simp add: fb error_message_of_def)
qed

section \<open>Callers that arrive while a load is in flight\<close>

text \<open>
  JavaScript runs one task at a time and a call of \<^verbatim>\<open>lazyLoad\<close> gives up control only at
  an \<^verbatim>\<open>await\<close>. So when several callers ask for a key while its load is outstanding,
  their calls run their first part one after the other, in the order of the calls, each
  at its own time; when the load settles, each call runs its last part, again in that
  order. A caller is given by the time of its call, its loader and its options.
\<close>

type_synonym lazy_call = "int \<times> operation \<times> lazy_options"

fun lazyLoad_begin_all ::
  "retry_config \<Rightarrow> optimizer_state \<Rightarrow> lazy_call list \<Rightarrow> optimizer_state \<times> lazy_phase list" where
  "lazyLoad_begin_all rc st [] = (st, [])"
| "lazyLoad_begin_all rc st ((now, loader, options) # calls) =
     (let (st1, phase) = lazyLoad_begin rc st now loader options;
          (st2, phases) = lazyLoad_begin_all rc st1 calls
      in (st2, phase # phases))"

text \<open>The last part of a call, by the place where it waited.\<close>

fun lazyLoad_resume ::
  "optimizer_state \<Rightarrow> int \<Rightarrow> lazy_options \<Rightarrow> lazy_phase \<Rightarrow> optimizer_state \<times> (js_error + jsval)" where
  "lazyLoad_resume st later options (Returned cached) = (st, Inr cached)"
| "lazyLoad_resume st later options (AwaitingActive p) = (st, outcome p)"
| "lazyLoad_resume st later options (AwaitingLoad p) = lazyLoad_finish st later options p"

fun lazyLoad_resume_all ::
  "optimizer_state \<Rightarrow> int \<Rightarrow> (lazy_call \<times> lazy_phase) list
     \<Rightarrow> optimizer_state \<times> (js_error + jsval) list" where
  "lazyLoad_resume_all st later [] = (st, [])"
| "lazyLoad_resume_all st later (((now, loader, options), phase) # waiting) =
     (let (st1, r) = lazyLoad_resume st later options phase;
          (st2, rs) = lazyLoad_resume_all st1 later waiting
      in (st2, r # rs))"

text \<open>All the callers begin, then the load settles at time \<open>later\<close> and all of them end.\<close>

definition lazyLoad_concurrently ::
  "retry_config \<Rightarrow> optimizer_state \<Rightarrow> lazy_call list \<Rightarrow> int
     \<Rightarrow> optimizer_state \<times> (js_error + jsval) list" where
  "lazyLoad_concurrently rc st calls later =
     (let (st1, phases) = lazyLoad_begin_all rc st calls
      in lazyLoad_resume_all st1 later (zip calls phases))"

text \<open>How many loads the callers started, and how often those loads invoke a loader.\<close>

fun loads_started :: "lazy_phase list \<Rightarrow> nat" where
  "loads_started [] = 0"
| "loads_started (AwaitingLoad p # phases) = Suc (loads_started phases)"
| "loads_started (phase # phases) = loads_started phases"

fun loader_invocations :: "lazy_phase list \<Rightarrow> nat" where
  "loader_invocations [] = 0"
| "loader_invocations (AwaitingLoad p # phases) = invocations p + loader_invocations phases"
| "loader_invocations (phase # phases) = loader_invocations phases"

section \<open>One load for all the callers of a key\<close>

definition always_miss :: "cache_manager \<Rightarrow> string \<Rightarrow> bool" where
  "always_miss cm k = (\<forall>t. \<not> truthy (fst (cm_get cm t k)))"

lemma always_miss_after_miss:
  "\<not> truthy (fst (cm_get cm t k)) \<Longrightarrow> always_miss (snd (cm_get cm t k)) k"
  by (simp add: always_miss_def cm_get_miss_stays)

lemma always_miss_read: "always_miss cm k \<Longrightarrow> always_miss (snd (cm_get cm t k)) k"
  by (simp add: always_miss_def cm_get_miss_stays)

lemma lazyLoad_begin_start:
  assumes "truthy_key options = Some k" and "\<not> truthy (fst (cm_get (po_cache st) now k))"
      and "map_of (activeRequests st) k = None"
  shows "lazyLoad_begin rc st now loader options =
     (st \<lparr> po_cache := snd (cm_get (po_cache st) now k),
           activeRequests := AList.update k (withRetry rc loader (lazy_retry_options options))
                               (activeRequests st) \<rparr>,
      AwaitingLoad (withRetry rc loader (lazy_retry_options options)))"
  using assms by (simp add: lazyLoad_begin_def split_beta Let_def)

lemma lazyLoad_begin_join:
  assumes "truthy_key options = Some k" and "always_miss (po_cache st) k"
      and "map_of (activeRequests st) k = Some p"
  shows "lazyLoad_begin rc st now loader options =
     (st \<lparr> po_cache := snd (cm_get (po_cache st) now k) \<rparr>, AwaitingActive p)"
  using assms by (simp add: lazyLoad_begin_def split_beta Let_def always_miss_def)

lemma lazyLoad_begin_all_join:
  "\<forall>c\<in>set calls. truthy_key (snd (snd c)) = Some k \<Longrightarrow> always_miss (po_cache st) k \<Longrightarrow>
   map_of (activeRequests st) k = Some p \<Longrightarrow>
     snd (lazyLoad_begin_all rc st calls) = replicate (length calls) (AwaitingActive p)
     \<and> activeRequests (fst (lazyLoad_begin_all rc st calls)) = activeRequests st
     \<and> always_miss (po_cache (fst (lazyLoad_begin_all rc st calls))) k"
proof (induction calls arbitrary: st)
  case Nil
  then show ?case by simp
next
  case (Cons c calls)
  obtain now loader options where c: "c = (now, loader, options)" by (cases c)
  let ?st1 = "st \<lparr> po_cache := snd (cm_get (po_cache st) now k) \<rparr>"
  have key: "truthy_key options = Some k" using Cons.prems(1) c by simp
  have b: "lazyLoad_begin rc st now loader options = (?st1, AwaitingActive p)"
    by (rule lazyLoad_begin_join [OF key Cons.prems(2,3)])
  have ih: "snd (lazyLoad_begin_all rc ?st1 calls) = replicate (length calls) (AwaitingActive p)
     \<and> activeRequests (fst (lazyLoad_begin_all rc ?st1 calls)) = activeRequests ?st1
     \<and> always_miss (po_cache (fst (lazyLoad_begin_all rc ?st1 calls))) k"
    using Cons.prems by (intro Cons.IH) (simp_all add: always_miss_read)
  show ?case
    using ih by (simp add: c b split_beta)
qed

lemma lazyLoad_resume_all_joined:
  "lazyLoad_resume_all st later (zip calls (replicate (length calls) (AwaitingActive p)))
     = (st, replicate (length calls) (outcome p))"
proof (induction calls)
  case Nil
  then show ?case by simp
next
  case (Cons c calls)
  obtain now loader options where c: "c = (now, loader, options)" by (cases c)
  show ?case using Cons.IH by (simp add: c)
qed

lemma loads_started_joined [simp]: "loads_started (replicate n (AwaitingActive p)) = 0"
  by (induction n) simp_all

lemma loader_invocations_joined [simp]: "loader_invocations (replicate n (AwaitingActive p)) = 0"
  by (induction n) simp_all

lemma lazyLoad_finish_registry:
  "truthy_key options = Some k \<Longrightarrow>
     snd (lazyLoad_finish st later options p) = outcome p
     \<and> map_of (activeRequests (fst (lazyLoad_finish st later options p))) k = None"
  by (simp add: lazyLoad_finish_def Let_def delete_conv' split: sum.splits)

lemma single_flight:
  assumes keys: "\<forall>c\<in>set ((now1, loader1, options1) # others). truthy_key (snd (snd c)) = Some k"
      and idle: "map_of (activeRequests st) k = None"
      and miss: "\<not> truthy (fst (cm_get (po_cache st) now1 k))"
  shows "snd (lazyLoad_begin_all rc st ((now1, loader1, options1) # others))
           = AwaitingLoad (withRetry rc loader1 (lazy_retry_options options1))
               # replicate (length others) (AwaitingActive (withRetry rc loader1 (lazy_retry_options options1)))"
    and "snd (lazyLoad_concurrently rc st ((now1, loader1, options1) # others) later)
           = replicate (Suc (length others)) (outcome (withRetry rc loader1 (lazy_retry_options options1)))"
    and "map_of (activeRequests (fst (lazyLoad_concurrently rc st ((now1, loader1, options1) # others) later))) k
           = None"
proof -
  let ?p = "withRetry rc loader1 (lazy_retry_options options1)"
  let ?st1 = "st \<lparr> po_cache := snd (cm_get (po_cache st) now1 k),
                   activeRequests := AList.update k ?p (activeRequests st) \<rparr>"
  have k1: "truthy_key options1 = Some k" using keys by simp
  have rest: "\<forall>c\<in>set others. truthy_key (snd (snd c)) = Some k" using keys by simp
  have b: "lazyLoad_begin rc st now1 loader1 options1 = (?st1, AwaitingLoad ?p)"
    by (rule lazyLoad_begin_start [OF k1 miss idle])
  have am: "always_miss (po_cache ?st1) k"
    using miss by (simp add: always_miss_after_miss)
  have reg: "map_of (activeRequests ?st1) k = Some ?p"
    by (simp add: update_conv')
  note j = lazyLoad_begin_all_join [OF rest am reg, of rc]
  obtain st2 where st2: "lazyLoad_begin_all rc ?st1 others
                           = (st2, replicate (length others) (AwaitingActive ?p))"
    using j by (cases "lazyLoad_begin_all rc ?st1 others") simp
  show ph: "snd (lazyLoad_begin_all rc st ((now1, loader1, options1) # others))
           = AwaitingLoad ?p # replicate (length others) (AwaitingActive ?p)"
    by (simp add: b st2)
  obtain st3 where st3: "lazyLoad_finish st2 later options1 ?p = (st3, outcome ?p)"
      and gone: "map_of (activeRequests st3) k = None"
    using lazyLoad_finish_registry [OF k1, of st2 later ?p]
    by (cases "lazyLoad_finish st2 later options1 ?p") simp
  have run: "lazyLoad_concurrently rc st ((now1, loader1, options1) # others) later
               = (st3, outcome ?p # replicate (length others) (outcome ?p))"
    by (simp add: lazyLoad_concurrently_def b st2 st3 lazyLoad_resume_all_joined)
  show "snd (lazyLoad_concurrently rc st ((now1, loader1, options1) # others) later)
           = replicate (Suc (length others)) (outcome ?p)"
    by (simp add: run)
  show "map_of (activeRequests (fst (lazyLoad_concurrently rc st ((now1, loader1, options1) # others) later))) k
           = None"
    by (simp add: run gone)
qed

lemma withRetry_all_fail_invocations:
  assumes "\<forall>i. \<not> fulfils (operation i)" and "0 \<le> cfg_maxRetries (resolve_config rc options)"
  shows "invocations (withRetry rc operation options)
           = nat (cfg_maxRetries (resolve_config rc options) + 1)"
  unfolding withRetry_def
  using withRetry_loop_all_fail [OF assms(1), of 1 "resolve_config rc options" rc None 0 "[]"] assms(2)
  by simp

text \<open>
  C2, as the code has it. Let callers ask \<^verbatim>\<open>lazyLoad\<close> for the same non-empty key \<open>k\<close>,
  one after the other while the load is outstanding, starting from a state where no load
  of \<open>k\<close> is in flight and the first caller's read of the cache misses. Then the first
  caller starts the one retried load and every other caller awaits that same load; the
  loader is invoked by that load alone: once when its first attempt succeeds, and
  \<open>maxRetries + 1\<close> times when it fails on every attempt. When the load settles every
  caller gets its outcome, value or error alike, and the key is gone from the registry.
\<close>

theorem C2_single_flight:
  assumes "\<forall>c\<in>set ((now1, loader1, options1) # others). truthy_key (snd (snd c)) = Some k"
      and "map_of (activeRequests st) k = None"
      and "\<not> truthy (fst (cm_get (po_cache st) now1 k))"
  shows
   "snd (lazyLoad_begin_all rc st ((now1, loader1, options1) # others))
      = AwaitingLoad (withRetry rc loader1 (lazy_retry_options options1))
          # replicate (length others)
              (AwaitingActive (withRetry rc loader1 (lazy_retry_options options1)))
    \<and> loads_started (snd (lazyLoad_begin_all rc st ((now1, loader1, options1) # others))) = 1
    \<and> loader_invocations (snd (lazyLoad_begin_all rc st ((now1, loader1, options1) # others)))
        = invocations (withRetry rc loader1 (lazy_retry_options options1))
    \<and> snd (lazyLoad_concurrently rc st ((now1, loader1, options1) # others) later)
        = replicate (Suc (length others))
            (outcome (withRetry rc loader1 (lazy_retry_options options1)))
    \<and> map_of (activeRequests
                 (fst (lazyLoad_concurrently rc st ((now1, loader1, options1) # others) later))) k
        = None
    \<and> (loader1 0 = Fulfilled v \<and> 0 \<le> maxRetries rc \<longrightarrow>
          loader_invocations (snd (lazyLoad_begin_all rc st ((now1, loader1, options1) # others))) = 1
        \<and> snd (lazyLoad_concurrently rc st ((now1, loader1, options1) # others) later)
            = replicate (Suc (length others)) (Inr v))
    \<and> ((\<forall>i. \<not> fulfils (loader1 i)) \<and> 0 \<le> maxRetries rc \<longrightarrow>
          loader_invocations (snd (lazyLoad_begin_all rc st ((now1, loader1, options1) # others)))
            = nat (maxRetries rc + 1)
        \<and> (\<exists>e. snd (lazyLoad_concurrently rc st ((now1, loader1, options1) # others) later)
                  = replicate (Suc (length others)) (Inl e)))"
proof -
  let ?p = "withRetry rc loader1 (lazy_retry_options options1)"
  note s = single_flight [OF assms]
  have ph: "snd (lazyLoad_begin_all rc st ((now1, loader1, options1) # others))
      = AwaitingLoad ?p # replicate (length others) (AwaitingActive ?p)" by (rule s(1))
  have n1: "loads_started (snd (lazyLoad_begin_all rc st ((now1, loader1, options1) # others))) = 1"
    by (simp only: ph) simp
  have inv: "loader_invocations (snd (lazyLoad_begin_all rc st ((now1, loader1, options1) # others)))
        = invocations ?p"
    by (simp only: ph) simp
  have ok: "loader_invocations (snd (lazyLoad_begin_all rc st ((now1, loader1, options1) # others))) = 1
        \<and> snd (lazyLoad_concurrently rc st ((now1, loader1, options1) # others) later)
            = replicate (Suc (length others)) (Inr v)"
    if "loader1 0 = Fulfilled v \<and> 0 \<le> maxRetries rc"
  proof -
    have "?p = \<lparr> outcome = Inr v, invocations = 1, slept = [] \<rparr>"
      using that by (intro withRetry_first_fulfilled) simp_all
    then have "invocations ?p = 1" "outcome ?p = Inr v" by simp_all
    then show ?thesis unfolding inv s(2) by simp
  qed
  have ko: "loader_invocations (snd (lazyLoad_begin_all rc st ((now1, loader1, options1) # others)))
            = nat (maxRetries rc + 1)
        \<and> (\<exists>e. snd (lazyLoad_concurrently rc st ((now1, loader1, options1) # others) later)
                  = replicate (Suc (length others)) (Inl e))"
    if h: "(\<forall>i. \<not> fulfils (loader1 i)) \<and> 0 \<le> maxRetries rc"
  proof -
    have m: "0 \<le> cfg_maxRetries (resolve_config rc (lazy_retry_options options1))"
      using h by simp
    have "invocations ?p = nat (maxRetries rc + 1)"
      using withRetry_all_fail_invocations [OF h [THEN conjunct1] m] by simp
    moreover obtain e where "outcome ?p = Inl e"
      using withRetry_all_fail_outcome [OF h [THEN conjunct1] m] by blast
    ultimately show ?thesis unfolding inv s(2) by simp
  qed
  from ok have ok': "loader1 0 = Fulfilled v \<and> 0 \<le> maxRetries rc \<longrightarrow>
          loader_invocations (snd (lazyLoad_begin_all rc st ((now1, loader1, options1) # others))) = 1
        \<and> snd (lazyLoad_concurrently rc st ((now1, loader1, options1) # others) later)
            = replicate (Suc (length others)) (Inr v)" by (rule impI)
  from ko have ko': "(\<forall>i. \<not> fulfils (loader1 i)) \<and> 0 \<le> maxRetries rc \<longrightarrow>
          loader_invocations (snd (lazyLoad_begin_all rc st ((now1, loader1, options1) # others)))
            = nat (maxRetries rc + 1)
        \<and> (\<exists>e. snd (lazyLoad_concurrently rc st ((now1, loader1, options1) # others) later)
                  = replicate (Suc (length others)) (Inl e))" by (rule impI)
  show ?thesis
    by (intro conjI) (rule ph n1 inv s(2) s(3) ok' ko')+
qed

definition failing_loader :: operation where
  "failing_loader = (\<lambda>i. Rejected (Error ''offline''))"

definition fresh_loader :: operation where
  "fresh_loader = (\<lambda>i. Fulfilled (JStr ''fresh''))"

definition three_callers :: "operation \<Rightarrow> lazy_call list" where
  "three_callers loader =
     [(0, loader, services_options), (1, loader, services_options), (2, loader, services_options)]"

lemma three_callers_premises:
  "\<forall>c\<in>set ((0, loader, services_options)
               # [(1, loader, services_options), (2, loader, services_options)]).
      truthy_key (snd (snd c)) = Some ''services_''"
  "map_of (activeRequests new_optimizer) ''services_'' = None"
  "\<not> truthy (fst (cm_get (po_cache new_optimizer) 0 ''services_''))"
  by (simp_all add: truthy_key_def services_options_def new_optimizer_def cm_get_def
        new_CacheManager_def)

theorem C2_single_flight_witness:
  "loads_started (snd (lazyLoad_begin_all new_retryConfig new_optimizer (three_callers fresh_loader))) = 1
   \<and> loader_invocations (snd (lazyLoad_begin_all new_retryConfig new_optimizer (three_callers fresh_loader))) = 1
   \<and> snd (lazyLoad_concurrently new_retryConfig new_optimizer (three_callers fresh_loader) 50)
       = [Inr (JStr ''fresh''), Inr (JStr ''fresh''), Inr (JStr ''fresh'')]
   \<and> map_of (activeRequests
        (fst (lazyLoad_concurrently new_retryConfig new_optimizer (three_callers fresh_loader) 50)))
        ''services_'' = None"
proof -
  note T = C2_single_flight [OF three_callers_premises, of new_retryConfig fresh_loader 50
             "JStr ''fresh''"]
  have h: "fresh_loader 0 = Fulfilled (JStr ''fresh'') \<and> 0 \<le> maxRetries new_retryConfig"
    by (simp add: fresh_loader_def new_retryConfig_def)
  note ok = T [THEN conjunct2, THEN conjunct2, THEN conjunct2, THEN conjunct2, THEN conjunct2,
               THEN conjunct1, THEN mp, OF h]
  show ?thesis
    unfolding three_callers_def
    using T [THEN conjunct2, THEN conjunct1] ok
          T [THEN conjunct2, THEN conjunct2, THEN conjunct2, THEN conjunct2, THEN conjunct1]
    by (simp add: numeral_3_eq_3)
qed

text \<open>
  The claim as the specification words it has the loader invoked exactly once. When the
  loader fails, the one load the three callers share retries it: four invocations.
\<close>

theorem C2_loader_retried_counterexample:
  "loads_started (snd (lazyLoad_begin_all new_retryConfig new_optimizer (three_callers failing_loader))) = 1
   \<and> loader_invocations (snd (lazyLoad_begin_all new_retryConfig new_optimizer (three_callers failing_loader))) = 4"
proof -
  note s = single_flight(1) [OF three_callers_premises]
  have f: "\<forall>i. \<not> fulfils (failing_loader i)" by (simp add: failing_loader_def)
  have m: "0 \<le> cfg_maxRetries (resolve_config new_retryConfig (lazy_retry_options services_options))"
    by (simp add: new_retryConfig_def)
  have "invocations (withRetry new_retryConfig failing_loader (lazy_retry_options services_options)) = 4"
    using withRetry_all_fail_invocations [OF f m] by (simp add: new_retryConfig_def)
  then show ?thesis
    unfolding three_callers_def by (simp only: s) simp
qed

end
